theory Spec2Isabelle
  imports Complex_Main "HOL-Library.Word"
begin

unbundle bit_operations_syntax

text \<open>
  A shallow embedding of the protocol code of hmgo, a controller for BidCoS home
  automation devices: the BidCoS packet codec and its message counters (package
  \<open>bidcos\<close>), the byte stuffing of the serial gateway (package \<open>uartgw\<close>), the device
  configuration and peering exchanges (package \<open>hm\<close>), the weekly program encoder (package
  \<open>thermal\<close>) and two event decoders (packages \<open>heating\<close> and \<open>thermal\<close>). Bytes are
  8-bit words, slices are lists, and a run-time panic is a value of its own. The
  definitions come first, the properties proved of them after.
\<close>

section \<open>Common types\<close>

type_synonym byte = "8 word"

text \<open>Go's \<open>[3]byte\<close>: exactly three bytes, so a triple.\<close>

type_synonym addr = "byte \<times> byte \<times> byte"

fun addr_bytes :: "addr \<Rightarrow> byte list" where
  "addr_bytes (a, b, c) = [a, b, c]"

text \<open>
  The errors the modelled functions return. The source builds them with \<open>fmt.Errorf\<close>;
  each constructor stands for one of its messages and carries the values the message
  prints. \<open>GatewayError\<close> is an error handed up by the \<open>Gateway\<close> behind the sender,
  \<open>CallbackFailed\<close> one returned by the callback of \<open>EnsureConfigured\<close>.
\<close>

datatype error =
    TooShort nat
  | GatewayError
  | BufferTooShort nat nat
  | UnexpectedParamReply "byte list"
  | UnexpectedPayload byte
  | UnpeeringNotImplemented
  | UnexpectedResponseCommand byte byte
  | UnexpectedResponsePayloadLength nat
  | UnexpectedAckStatus byte
  | UnexpectedPayloadSize nat nat
  | CallbackFailed

section \<open>Package bidcos: packets\<close>

definition Config :: byte where "Config = 0x01"

definition ConfigPeerAdd :: byte where "ConfigPeerAdd = 0x01"
definition ConfigPeerRemove :: byte where "ConfigPeerRemove = 0x02"
definition ConfigPeerListReq :: byte where "ConfigPeerListReq = 0x03"
definition ConfigParamReq :: byte where "ConfigParamReq = 0x04"
definition ConfigStart :: byte where "ConfigStart = 0x05"
definition ConfigEnd :: byte where "ConfigEnd = 0x06"
definition ConfigWriteIndexPairs :: byte where "ConfigWriteIndexPairs = 0x08"

definition InfoParamResponsePairs :: byte where "InfoParamResponsePairs = 0x02"
definition InfoParamResponseSeq :: byte where "InfoParamResponseSeq = 0x03"

definition Burst :: byte where "Burst = 0x10"
definition BiDi :: byte where "BiDi = 0x20"
definition RepeatEnable :: byte where "RepeatEnable = 0x80"
definition DefaultFlags :: byte where "DefaultFlags = RepeatEnable OR BiDi"

record Packet =
  status :: byte
  info :: byte
  rssi :: byte
  Msgcnt :: byte
  Flags :: byte
  Cmd :: byte
  Source :: addr
  Dest :: addr
  Payload :: "byte list"

text \<open>
  \<open>Packet.Encode\<close>. The package-level \<open>messageCounter.counter\<close> is passed in and returned
  (the mutex around it has no sequential meaning). A packet whose \<open>Msgcnt\<close> is 0 takes the
  counter's value and advances the counter by 9; byte addition wraps.
\<close>

definition Encode :: "Packet \<Rightarrow> byte \<Rightarrow> byte list \<times> byte" where
  "Encode p counter =
     (let (cnt, counter') =
            (if Msgcnt p = 0 then (counter, counter + 9) else (Msgcnt p, counter));
          burst = (if Flags p AND 0x10 = 0x10 then 0x01 else 0x00)
      in ([0x00, 0x00, burst, cnt, Flags p, Cmd p]
            @ addr_bytes (Source p) @ addr_bytes (Dest p) @ Payload p,
          counter'))"

text \<open>\<open>Decode\<close>: at least 12 bytes, fields by position, the rest is the payload.\<close>

definition Decode :: "byte list \<Rightarrow> error + Packet" where
  "Decode b =
     (if length b < 12 then Inl (TooShort (length b))
      else Inr \<lparr> status = b ! 0, info = b ! 1, rssi = b ! 2,
                 Msgcnt = b ! 3, Flags = b ! 4, Cmd = b ! 5,
                 Source = (b ! 6, b ! 7, b ! 8),
                 Dest = (b ! 9, b ! 10, b ! 11),
                 Payload = drop 12 b \<rparr>)"

section \<open>Package hm: the device's message counter\<close>

text \<open>\<open>StandardDevice.count\<close>: returns \<open>sd.msgcnt\<close> and advances it by 9 (a byte, so modulo 256).\<close>

definition count :: "byte \<Rightarrow> byte \<times> byte" where
  "count msgcnt = (msgcnt, msgcnt + 9)"

section \<open>Package uartgw: byte stuffing\<close>

text \<open>
  The loop of \<open>escapingWriter.Write\<close>: \<open>0xfd\<close> and \<open>0xfc\<close> become \<open>0xfc, b & 0x7f\<close>,
  every other byte is appended as it is.
\<close>

fun escape :: "byte list \<Rightarrow> byte list" where
  "escape [] = []"
| "escape (b # p) =
     (if b = 0xfd \<or> b = 0xfc then [0xfc, b AND 0x7f] else [b]) @ escape p"

text \<open>
  \<open>escapingWriter.Write\<close> over an in-memory writer: the second argument is what the
  wrapped writer has received so far; the result is the returned count and what it has
  received afterwards. An empty \<open>p\<close> returns 0 without calling the wrapped writer.
\<close>

definition escapingWriter_Write :: "byte list \<Rightarrow> byte list \<Rightarrow> nat \<times> byte list" where
  "escapingWriter_Write p w = (if length p = 0 then (0, w) else (length p, w @ escape p))"

text \<open>
  The escaping as the specification words it in its data model, each \<open>0xfd\<close> or \<open>0xfc\<close>
  sent as \<open>0xfc, (b XOR 0x80)\<close>. It is compared with \<open>escape\<close>, the source's loop, below.
\<close>

fun escape_spec :: "byte list \<Rightarrow> byte list" where
  "escape_spec [] = []"
| "escape_spec (b # p) =
     (if b = 0xfd \<or> b = 0xfc then [0xfc, b XOR 0x80] else [b]) @ escape_spec p"

text \<open>
  The reader wrapped by \<open>unescapingReader\<close>: the bytes still to come, and how many of them
  each coming \<open>Read\<close> call delivers at most (an \<open>io.Reader\<close> may return fewer bytes than
  the buffer holds). A call delivers at least one byte while bytes remain, and fails
  with end of file, delivering nothing, when none do; this is how \<open>bytes.Reader\<close> and a
  file behave.
\<close>

record reader =
  pending :: "byte list"
  chunks :: "nat list"

datatype io_error = EOF

definition reader_Read :: "nat \<Rightarrow> reader \<Rightarrow> byte list \<times> io_error option \<times> reader" where
  "reader_Read k r =
     (if pending r = [] then ([], Some EOF, r)
      else
        let c = (case chunks r of [] \<Rightarrow> k | c # _ \<Rightarrow> max 1 c);
            n = min k c
        in (take n (pending r), None,
            r\<lparr>pending := drop n (pending r), chunks := tl (chunks r)\<rparr>))"

text \<open>
  The loop of \<open>unescapingReader.Read\<close> over \<open>raw[:n]\<close>, started with the flag
  \<open>escapeByte\<close>: the bytes stored into \<open>p\<close> in order and the flag at the end.
\<close>

fun unescape_loop :: "byte list \<Rightarrow> bool \<Rightarrow> byte list \<times> bool" where
  "unescape_loop [] escapeByte = ([], escapeByte)"
| "unescape_loop (b # raw) escapeByte =
     (if b = 0xfc then unescape_loop raw True
      else
        let b' = (if escapeByte then b OR 0x80 else b);
            (out, e) = unescape_loop raw False
        in (b' # out, e))"

text \<open>
  \<open>unescapingReader.Read\<close> with a buffer of \<open>k\<close> bytes: the bytes \<open>p[:idx]\<close> it returns,
  the error, and the wrapped reader afterwards. When the raw bytes end on the escape
  byte, one more byte is read and stored with bit 7 set.
\<close>

definition unescapingReader_Read ::
    "nat \<Rightarrow> reader \<Rightarrow> byte list \<times> io_error option \<times> reader" where
  "unescapingReader_Read k r =
     (if k = 0 then ([], None, r)
      else
        case reader_Read k r of
          (raw, Some err, r1) \<Rightarrow> ([], Some err, r1)
        | (raw, None, r1) \<Rightarrow>
            (case unescape_loop raw False of
               (out, False) \<Rightarrow> (out, None, r1)
             | (out, True) \<Rightarrow>
                 (case reader_Read 1 r1 of
                    (lst, Some err, r2) \<Rightarrow> (out, Some err, r2)
                  | (lst, None, r2) \<Rightarrow> (out @ [(case lst of [] \<Rightarrow> 0 | l # _ \<Rightarrow> l) OR 0x80], None, r2))))"

text \<open>
  Reading to the end: \<open>Read\<close> is called with a buffer of \<open>k\<close> bytes until it reports an
  error; the result is every byte returned, in order. \<open>None\<close> stands for a caller that
  never finishes (a buffer of no bytes makes no progress).
\<close>

fun unescape_fuel :: "nat \<Rightarrow> nat \<Rightarrow> reader \<Rightarrow> byte list option" where
  "unescape_fuel 0 k r = None"
| "unescape_fuel (Suc fuel) k r =
     (case unescapingReader_Read k r of
        (out, Some err, r') \<Rightarrow> Some out
      | (out, None, r') \<Rightarrow>
          (case unescape_fuel fuel k r' of
             None \<Rightarrow> None
           | Some rest \<Rightarrow> Some (out @ rest)))"

section \<open>Package hm: devices behind a sender\<close>

text \<open>
  What a function of the source leaves behind: a value, a returned error, or a run-time
  panic (an index or a slice bound out of range), which no caller in the source recovers.
\<close>

datatype 'a outcome = Ok 'a | Err error | Panic

text \<open>
  One \<open>Gateway.Read\<close> to come: an error, or the bytes of one received BidCoS packet.
  One \<open>WritePacket\<close> to come: both \<open>Gateway.Write\<close> and \<open>Gateway.Confirm\<close> succeed, the
  write fails, or the write succeeds and the confirmation fails.
\<close>

datatype rx = RxErr | Rx "byte list"

datatype wres = WOk | WriteFails | ConfirmFails

text \<open>
  The state the functions of \<open>StandardDevice\<close> work on: the device (\<open>Addr\<close>, \<open>msgcnt\<close>), its
  sender's address (\<open>sd.BCS.Addr\<close>), the package-level counter of \<open>bidcos\<close>, and the
  gateway: what its coming reads and writes will answer and the frames written to it so
  far. A write beyond the end of \<open>wscript\<close> succeeds; a read beyond the end of \<open>inbox\<close>
  fails.
\<close>

record state =
  BCS_Addr :: addr
  Addr :: addr
  msgcnt :: byte
  messageCounter :: byte
  inbox :: "rx list"
  wscript :: "wres list"
  outbox :: "byte list list"

record FullyQualifiedChannel =
  Peer :: addr
  Channel :: byte

text \<open>
  \<open>Gateway.Read\<close> into a buffer of \<open>k\<close> bytes, as \<open>UARTGW.Read\<close> does it: a packet longer than
  the buffer is an error.
\<close>

definition Gateway_Read :: "nat \<Rightarrow> state \<Rightarrow> byte list outcome \<times> state" where
  "Gateway_Read k s =
     (case inbox s of
        [] \<Rightarrow> (Err GatewayError, s)
      | RxErr # rest \<Rightarrow> (Err GatewayError, s\<lparr>inbox := rest\<rparr>)
      | Rx bs # rest \<Rightarrow>
          if k < length bs then (Err (BufferTooShort k (length bs)), s\<lparr>inbox := rest\<rparr>)
          else (Ok bs, s\<lparr>inbox := rest\<rparr>))"

text \<open>\<open>Sender.ReadPacket\<close>: one read into 17 + 12 bytes, then \<open>Decode\<close>.\<close>

definition ReadPacket :: "state \<Rightarrow> Packet outcome \<times> state" where
  "ReadPacket s =
     (case Gateway_Read (17 + 12) s of
        (Ok bs, s') \<Rightarrow> (case Decode bs of Inl e \<Rightarrow> (Err e, s') | Inr pkt \<Rightarrow> (Ok pkt, s'))
      | (Err e, s') \<Rightarrow> (Err e, s')
      | (Panic, s') \<Rightarrow> (Panic, s'))"

text \<open>
  \<open>Sender.WritePacket\<close>: the source address is overwritten, the packet encoded (which may
  advance the package-level counter), written, and confirmed.
\<close>

definition WritePacket :: "Packet \<Rightarrow> state \<Rightarrow> unit outcome \<times> state" where
  "WritePacket pkt s =
     (let (bs, counter') = Encode (pkt\<lparr>Source := BCS_Addr s\<rparr>) (messageCounter s);
          s1 = s\<lparr>messageCounter := counter'\<rparr>
      in case wscript s1 of
           [] \<Rightarrow> (Ok (), s1\<lparr>outbox := outbox s1 @ [bs]\<rparr>)
         | WOk # ws \<Rightarrow> (Ok (), s1\<lparr>wscript := ws, outbox := outbox s1 @ [bs]\<rparr>)
         | WriteFails # ws \<Rightarrow> (Err GatewayError, s1\<lparr>wscript := ws\<rparr>)
         | ConfirmFails # ws \<Rightarrow>
             (Err GatewayError, s1\<lparr>wscript := ws, outbox := outbox s1 @ [bs]\<rparr>))"

text \<open>
  The packet literal shared by the \<open>Config...\<close> methods: \<open>Msgcnt: sd.count()\<close>, the given
  flags, \<open>Cmd: bidcos.Config\<close>, \<open>Dest: sd.Addr\<close>; the fields left out are zero. The methods
  follow; they carry the suffix \<open>_send\<close> where the constant of package \<open>bidcos\<close> has the
  same name.
\<close>

definition sendConfig :: "byte \<Rightarrow> byte list \<Rightarrow> state \<Rightarrow> unit outcome \<times> state" where
  "sendConfig flags payload s =
     (let (m, msgcnt') = count (msgcnt s);
          s1 = s\<lparr>msgcnt := msgcnt'\<rparr>
      in WritePacket \<lparr> status = 0, info = 0, rssi = 0, Msgcnt = m, Flags = flags,
                        Cmd = Config, Source = (0, 0, 0), Dest = Addr s1,
                        Payload = payload \<rparr> s1)"

definition ConfigStart_send :: "byte \<Rightarrow> byte \<Rightarrow> state \<Rightarrow> unit outcome \<times> state" where
  "ConfigStart_send channel paramlist =
     sendConfig DefaultFlags [channel, ConfigStart, 0, 0, 0, 0, paramlist]"

definition ConfigWriteIndex :: "byte \<Rightarrow> byte list \<Rightarrow> state \<Rightarrow> unit outcome \<times> state" where
  "ConfigWriteIndex channel kv =
     sendConfig DefaultFlags ([channel, ConfigWriteIndexPairs] @ kv)"

definition ConfigEnd_send :: "byte \<Rightarrow> state \<Rightarrow> unit outcome \<times> state" where
  "ConfigEnd_send channel = sendConfig DefaultFlags [channel, ConfigEnd]"

definition ConfigParamReq_send :: "byte \<Rightarrow> byte \<Rightarrow> state \<Rightarrow> unit outcome \<times> state" where
  "ConfigParamReq_send channel paramlist =
     sendConfig (DefaultFlags OR Burst) [channel, ConfigParamReq, 0, 0, 0, 0, paramlist]"

definition ConfigPeerListReq_send :: "byte \<Rightarrow> state \<Rightarrow> unit outcome \<times> state" where
  "ConfigPeerListReq_send channel =
     sendConfig (DefaultFlags OR Burst) [channel, ConfigPeerListReq]"

definition ConfigPeerAdd_send ::
    "byte \<Rightarrow> addr \<Rightarrow> byte \<Rightarrow> state \<Rightarrow> unit outcome \<times> state" where
  "ConfigPeerAdd_send channel peerAddr peerChannel =
     sendConfig (DefaultFlags OR Burst)
       ([channel, ConfigPeerAdd] @ addr_bytes peerAddr @ [peerChannel, 0x00])"

definition ConfigPeerRemove_send ::
    "byte \<Rightarrow> addr \<Rightarrow> byte \<Rightarrow> state \<Rightarrow> unit outcome \<times> state" where
  "ConfigPeerRemove_send channel peerAddr peerChannel =
     sendConfig (DefaultFlags OR Burst)
       ([channel, ConfigPeerRemove] @ addr_bytes peerAddr @ [peerChannel, 0x00])"

subsection \<open>LoadConfig\<close>

text \<open>
  \<open>mem[k] = v\<close> on a slice: a panic when \<open>k\<close> is not below its length.
\<close>

definition store :: "byte list \<Rightarrow> byte \<Rightarrow> byte \<Rightarrow> byte list option" where
  "store mem k v = (if unat k < length mem then Some (mem[unat k := v]) else None)"

text \<open>
  The loop \<open>for i := 1; i < len(p); i += 2 { mem[p[i]] = p[i+1] }\<close> on \<open>p[1:]\<close>: with one
  byte left, \<open>p[i+1]\<close> is out of range.
\<close>

fun writePairs :: "byte list \<Rightarrow> byte list \<Rightarrow> byte list option" where
  "writePairs [] mem = Some mem"
| "writePairs [k] mem = None"
| "writePairs (k # v # rest) mem =
     (case store mem k v of None \<Rightarrow> None | Some mem' \<Rightarrow> writePairs rest mem')"

text \<open>
  The loop \<open>for i := 0; i < len(p)-2; i++ { mem[p[1]+byte(i)] = p[2+i] }\<close> on \<open>p[2:]\<close>, from
  \<open>i\<close> on; the index is a byte and wraps.
\<close>

fun writeSeq :: "byte \<Rightarrow> nat \<Rightarrow> byte list \<Rightarrow> byte list \<Rightarrow> byte list option" where
  "writeSeq start i [] mem = Some mem"
| "writeSeq start i (v # run) mem =
     (case store mem (start + of_nat i) v of
        None \<Rightarrow> None
      | Some mem' \<Rightarrow> writeSeq start (Suc i) run mem')"

text \<open>
  The loop \<open>ReadConfig\<close> of \<open>LoadConfig\<close>. Each round reads one packet, so the rounds are
  counted by the reads still to come. \<open>p[0]\<close> and \<open>p[1]\<close> panic on a payload that is too
  short. The memory comes back in every case, since it is updated in place.
\<close>

function ReadConfig :: "byte list \<Rightarrow> state \<Rightarrow> unit outcome \<times> byte list \<times> state" where
  "ReadConfig mem s =
     (case ReadPacket s of
        (Err e, s') \<Rightarrow> (Err e, mem, s')
      | (Panic, s') \<Rightarrow> (Panic, mem, s')
      | (Ok pkt, s') \<Rightarrow>
          if Source pkt \<noteq> Addr s' then ReadConfig mem s'
          else
            (case Payload pkt of
               [] \<Rightarrow> (Panic, mem, s')
             | p0 # p1 \<Rightarrow>
                 if p0 = InfoParamResponsePairs then
                   if p1 = [0x00, 0x00] then (Ok (), mem, s')
                   else
                     (case writePairs p1 mem of
                        None \<Rightarrow> (Panic, mem, s')
                      | Some mem' \<Rightarrow> ReadConfig mem' s')
                 else if p0 = InfoParamResponseSeq then
                   (case p1 of
                      [] \<Rightarrow> (Panic, mem, s')
                    | start # run \<Rightarrow>
                        if start = 0x00 then (Ok (), mem, s')
                        else
                          (case writeSeq start 0 run mem of
                             None \<Rightarrow> (Panic, mem, s')
                           | Some mem' \<Rightarrow> ReadConfig mem' s'))
                 else (Err (UnexpectedParamReply (Payload pkt)), mem, s')))"
  by pat_completeness auto
termination
  by (relation "measure (\<lambda>(mem, s). length (inbox s))")
     (auto simp: ReadPacket_def Gateway_Read_def
           split: list.splits rx.splits if_splits sum.splits)

definition LoadConfig ::
    "byte list \<Rightarrow> byte \<Rightarrow> byte \<Rightarrow> state \<Rightarrow> unit outcome \<times> byte list \<times> state" where
  "LoadConfig mem channel paramlist s =
     (case ConfigParamReq_send channel paramlist s of
        (Err e, s') \<Rightarrow> (Err e, mem, s')
      | (Panic, s') \<Rightarrow> (Panic, mem, s')
      | (Ok u, s') \<Rightarrow> ReadConfig mem s')"

subsection \<open>EnsureConfigured\<close>

text \<open>
  The callback \<open>cb\<close> gets the slice \<open>target\<close> and may return an error. It can overwrite the
  elements of the caller's slice but not resize it, so whatever list the modelled callback
  returns is laid over \<open>target\<close> position by position.
\<close>

definition applyCallback ::
    "(byte list \<Rightarrow> error option \<times> byte list) \<Rightarrow> byte list \<Rightarrow> error option \<times> byte list" where
  "applyCallback cb target =
     (let (e, r) = cb target
      in (e, take (length target) r @ drop (length r) target))"

text \<open>
  The loop collecting \<open>pairs\<close>: for each index whose bytes differ, the index and the
  target's byte. \<open>target\<close> is as long as \<open>devmem\<close>.
\<close>

definition diffPairs :: "byte list \<Rightarrow> byte list \<Rightarrow> byte list" where
  "diffPairs devmem target =
     concat (map (\<lambda>i. if devmem ! i \<noteq> target ! i then [of_nat i, target ! i] else [])
                 [0..<length devmem])"

text \<open>
  The loop \<open>for i := 0; i < pkts; i++\<close> sending \<open>pairs[offset:offset+rest]\<close>, from \<open>i\<close> on.
  The slice expression panics when \<open>offset\<close> lies beyond the end of \<open>pairs\<close>. The channel
  passed to \<open>ConfigWriteIndex\<close> is the constant 0, as in the source.
\<close>

function writeChunks :: "nat \<Rightarrow> nat \<Rightarrow> byte list \<Rightarrow> state \<Rightarrow> unit outcome \<times> state" where
  "writeChunks i pkts pairs s =
     (if i < pkts then
        let offset = 14 * i;
            rest = (if length pairs - offset > 14 then 14 else length pairs - offset)
        in if length pairs < offset then (Panic, s)
           else
             (case ConfigWriteIndex 0 (take rest (drop offset pairs)) s of
                (Err e, s') \<Rightarrow> (Err e, s')
              | (Panic, s') \<Rightarrow> (Panic, s')
              | (Ok u, s') \<Rightarrow> writeChunks (Suc i) pkts pairs s')
      else (Ok (), s))"
  by pat_completeness auto
termination
  by (relation "measure (\<lambda>(i, pkts, pairs, s). pkts - i)") auto

definition EnsureConfigured ::
    "byte \<Rightarrow> byte \<Rightarrow> (byte list \<Rightarrow> error option \<times> byte list) \<Rightarrow> state
      \<Rightarrow> unit outcome \<times> state" where
  "EnsureConfigured channel paramlist cb s =
     (case LoadConfig (replicate 256 0) channel paramlist s of
        (Err e, devmem, s1) \<Rightarrow> (Err e, s1)
      | (Panic, devmem, s1) \<Rightarrow> (Panic, s1)
      | (Ok u, devmem, s1) \<Rightarrow>
          (case applyCallback cb devmem of
             (Some e, target) \<Rightarrow> (Err e, s1)
           | (None, target) \<Rightarrow>
               let pairs = diffPairs devmem target
               in if length pairs = 0 then (Ok (), s1)
                  else
                    let pkts = length pairs div 14
                                 + (if length pairs mod 14 > 0 then 1 else 0)
                    in (case ConfigStart_send channel paramlist s1 of
                          (Err e, s2) \<Rightarrow> (Err e, s2)
                        | (Panic, s2) \<Rightarrow> (Panic, s2)
                        | (Ok u, s2) \<Rightarrow>
                            (case writeChunks 0 pkts pairs s2 of
                               (Err e, s3) \<Rightarrow> (Err e, s3)
                             | (Panic, s3) \<Rightarrow> (Panic, s3)
                             | (Ok u, s3) \<Rightarrow> ConfigEnd_send channel s3))))"

subsection \<open>EnsurePeeredWith\<close>

text \<open>
  The inner loop over the 4-byte records of one peer-list packet (\<open>len(list)/4\<close> of them,
  trailing bytes are ignored): \<open>True\<close> when the record \<open>00 00 00 00\<close> ended the list.
\<close>

fun peerRecords ::
    "byte list \<Rightarrow> FullyQualifiedChannel list \<Rightarrow> bool \<times> FullyQualifiedChannel list" where
  "peerRecords (a # b # c # d # list) peers =
     (if [a, b, c, d] = [0x00, 0x00, 0x00, 0x00] then (True, peers)
      else peerRecords list (peers @ [\<lparr> Peer = (a, b, c), Channel = d \<rparr>]))"
| "peerRecords list peers = (False, peers)"

text \<open>The loop \<open>ReadPeers\<close>: one packet per round; \<open>pkt.Payload[0]\<close> panics on no payload.\<close>

function ReadPeers ::
    "FullyQualifiedChannel list \<Rightarrow> state \<Rightarrow> FullyQualifiedChannel list outcome \<times> state" where
  "ReadPeers peers s =
     (case ReadPacket s of
        (Err e, s') \<Rightarrow> (Err e, s')
      | (Panic, s') \<Rightarrow> (Panic, s')
      | (Ok pkt, s') \<Rightarrow>
          if Source pkt \<noteq> Addr s' then ReadPeers peers s'
          else
            (case Payload pkt of
               [] \<Rightarrow> (Panic, s')
             | p0 # list \<Rightarrow>
                 if p0 \<noteq> 0x01 then (Err (UnexpectedPayload p0), s')
                 else
                   (case peerRecords list peers of
                      (True, peers') \<Rightarrow> (Ok peers', s')
                    | (False, peers') \<Rightarrow> ReadPeers peers' s')))"
  by pat_completeness auto
termination
  by (relation "measure (\<lambda>(peers, s). length (inbox s))")
     (auto simp: ReadPacket_def Gateway_Read_def
           split: list.splits rx.splits if_splits sum.splits)

text \<open>
  The acknowledgement check that follows \<open>ConfigPeerRemove\<close> (with \<open>want = 0x10\<close>) and
  \<open>ConfigPeerAdd\<close> (with \<open>want = 0x02\<close>): one packet, whatever its source, with the wanted
  command, at least one payload byte, and the first payload byte zero.
\<close>

definition readAck :: "byte \<Rightarrow> state \<Rightarrow> unit outcome \<times> state" where
  "readAck want s =
     (case ReadPacket s of
        (Err e, s') \<Rightarrow> (Err e, s')
      | (Panic, s') \<Rightarrow> (Panic, s')
      | (Ok pkt, s') \<Rightarrow>
          if Cmd pkt \<noteq> want then (Err (UnexpectedResponseCommand (Cmd pkt) want), s')
          else if length (Payload pkt) < 1
            then (Err (UnexpectedResponsePayloadLength (length (Payload pkt))), s')
          else if Payload pkt ! 0 \<noteq> 0x00 then (Err (UnexpectedAckStatus (Payload pkt ! 0)), s')
          else (Ok (), s'))"

text \<open>The tail of \<open>EnsurePeeredWith\<close>, from \<open>adding peer\<close> on.\<close>

definition addPeer :: "byte \<Rightarrow> FullyQualifiedChannel \<Rightarrow> state \<Rightarrow> unit outcome \<times> state" where
  "addPeer channel dest s =
     (case ConfigPeerAdd_send channel (Peer dest) (Channel dest) s of
        (Err e, s') \<Rightarrow> (Err e, s')
      | (Panic, s') \<Rightarrow> (Panic, s')
      | (Ok u, s') \<Rightarrow> readAck 0x02 s')"

definition EnsurePeeredWith ::
    "byte \<Rightarrow> FullyQualifiedChannel \<Rightarrow> state \<Rightarrow> unit outcome \<times> state" where
  "EnsurePeeredWith channel dest s =
     (case ConfigPeerListReq_send channel s of
        (Err e, s1) \<Rightarrow> (Err e, s1)
      | (Panic, s1) \<Rightarrow> (Panic, s1)
      | (Ok u, s1) \<Rightarrow>
          (case ReadPeers [] s1 of
             (Err e, s2) \<Rightarrow> (Err e, s2)
           | (Panic, s2) \<Rightarrow> (Panic, s2)
           | (Ok peers, s2) \<Rightarrow>
               if length peers > 1 then (Err UnpeeringNotImplemented, s2)
               else if length peers = 1 then
                 let existing = peers ! 0
                 in if Peer existing = Peer dest then (Ok (), s2)
                    else
                      (case ConfigPeerRemove_send channel (Peer existing) (Channel existing) s2 of
                         (Err e, s3) \<Rightarrow> (Err e, s3)
                       | (Panic, s3) \<Rightarrow> (Panic, s3)
                       | (Ok u, s3) \<Rightarrow>
                           (case readAck 0x10 s3 of
                              (Err e, s4) \<Rightarrow> (Err e, s4)
                            | (Panic, s4) \<Rightarrow> (Panic, s4)
                            | (Ok u, s4) \<Rightarrow> addPeer channel dest s4))
               else addPeer channel dest s2))"

section \<open>Package thermal: the program encoder\<close>

text \<open>
  \<open>Temperature\<close> is a \<open>float64\<close>. The encoder uses three things of it, which are taken as
  parameters over a type \<open>'f\<close> of floats: the comparison \<open>temperature == 0.0\<close>, the constant
  \<open>17.0\<close> and the conversion \<open>uint16(temperature*2.0)\<close>.
\<close>

record 'f float_ops =
  is_zero :: "'f \<Rightarrow> bool"
  seventeen :: 'f
  twice_uint16 :: "'f \<Rightarrow> 16 word"

record 'f ProgramEntry =
  Endtime :: "64 word"
  Temperature :: 'f

text \<open>
  \<open>Endtimes\<close> is a \<open>[13]ProgramEntry\<close>. It is a list here, read as the array a Go literal
  builds from it: entries that are not written are zero, and there is no entry 13.
  \<open>DayMask\<close> is an \<open>int\<close>, 64 bits wide.
\<close>

record 'f Program =
  DayMask :: "64 word"
  Endtimes :: "'f ProgramEntry list"

text \<open>
  One round of the loop of \<open>encodeProgramDay\<close>: the two bytes of entry \<open>i\<close>. An entry that
  is not written has \<open>Endtime\<close> 0 and \<open>Temperature\<close> 0.0, so both defaults apply.
\<close>

definition encodeEntry :: "'f float_ops \<Rightarrow> 'f ProgramEntry list \<Rightarrow> nat \<Rightarrow> byte list" where
  "encodeEntry ops entries i =
     (let endtime0 = (if i < length entries then Endtime (entries ! i) else 0);
          endtime = (if endtime0 = 0 then 1440 else endtime0);
          temperature =
            (if i < length entries \<and> \<not> is_zero ops (Temperature (entries ! i))
             then Temperature (entries ! i) else seventeen ops);
          e5 = (ucast (endtime div 5) :: 16 word);
          t2 = twice_uint16 ops temperature
      in [ucast (drop_bit 8 (e5 AND 0x0100) OR push_bit 1 (t2 AND 0x3F)),
          ucast (drop_bit 0 (e5 AND 0x00FF))])"

definition encodeProgramDay :: "'f float_ops \<Rightarrow> 'f ProgramEntry list \<Rightarrow> byte list" where
  "encodeProgramDay ops entries = concat (map (encodeEntry ops entries) [0..<13])"

text \<open>\<open>time.Weekday\<close>, numbered from Sunday = 0, and the table \<open>programOffsets\<close>.\<close>

datatype Weekday = Sunday | Monday | Tuesday | Wednesday | Thursday | Friday | Saturday

fun weekday_uint :: "Weekday \<Rightarrow> nat" where
  "weekday_uint Sunday = 0"
| "weekday_uint Monday = 1"
| "weekday_uint Tuesday = 2"
| "weekday_uint Wednesday = 3"
| "weekday_uint Thursday = 4"
| "weekday_uint Friday = 5"
| "weekday_uint Saturday = 6"

fun programOffsets :: "Weekday \<Rightarrow> nat" where
  "programOffsets Saturday = 20"
| "programOffsets Sunday = 46"
| "programOffsets Monday = 72"
| "programOffsets Tuesday = 98"
| "programOffsets Wednesday = 124"
| "programOffsets Thursday = 150"
| "programOffsets Friday = 176"

text \<open>
  \<open>copy(mem[off:], src)\<close>: the slice expression panics when \<open>off\<close> exceeds the length of
  \<open>mem\<close>; \<open>copy\<close> stops at the shorter of the two.
\<close>

definition copyAt :: "byte list \<Rightarrow> nat \<Rightarrow> byte list \<Rightarrow> byte list option" where
  "copyAt mem off src =
     (if length mem < off then None
      else
        let n = min (length mem - off) (length src)
        in Some (take off mem @ take n src @ drop (off + n) mem))"

text \<open>The test \<open>1<<uint(day)&pg.DayMask != 0\<close>.\<close>

definition dayBit :: "Weekday \<Rightarrow> 'f Program \<Rightarrow> bool" where
  "dayBit day pg \<longleftrightarrow> push_bit (weekday_uint day) 1 AND DayMask pg \<noteq> 0"

text \<open>The inner loop of \<open>SetPrograms\<close> over the programs, for one day.\<close>

fun setDay ::
    "'f float_ops \<Rightarrow> Weekday \<Rightarrow> 'f Program list \<Rightarrow> byte list \<Rightarrow> byte list option" where
  "setDay ops day [] mem = Some mem"
| "setDay ops day (pg # programs) mem =
     (if dayBit day pg then
        (case copyAt mem (programOffsets day) (encodeProgramDay ops (Endtimes pg)) of
           None \<Rightarrow> None
         | Some mem' \<Rightarrow> setDay ops day programs mem')
      else setDay ops day programs mem)"

text \<open>The outer loop over the days.\<close>

fun setDays ::
    "'f float_ops \<Rightarrow> Weekday list \<Rightarrow> 'f Program list \<Rightarrow> byte list \<Rightarrow> byte list option" where
  "setDays ops [] programs mem = Some mem"
| "setDays ops (day # days) programs mem =
     (case setDay ops day programs mem of
        None \<Rightarrow> None
      | Some mem' \<Rightarrow> setDays ops days programs mem')"

definition SetPrograms ::
    "'f float_ops \<Rightarrow> byte list \<Rightarrow> 'f Program list \<Rightarrow> byte list option" where
  "SetPrograms ops mem programs =
     setDays ops [Saturday, Sunday, Monday, Tuesday, Wednesday, Thursday, Friday] programs mem"

section \<open>Event decoders\<close>

text \<open>
  The decoders return \<open>float64\<close> values of the form \<open>float64(n) / 10\<close>, \<open>float64(n) / 2\<close> and
  \<open>float64(n) / 10 + 1.5\<close> for small integers \<open>n\<close>. They are given here as the exact
  rationals: the conversion of such an \<open>n\<close> is exact, and the rounding of the quotient
  keeps different quotients apart. Registering the values as metrics and storing the
  event as the device's latest one are left out.
\<close>

record heating_InfoEvent =
  SetTemperature :: rat
  ActualTemperature :: rat
  Fault :: byte
  BatteryState :: rat
  ValveState :: "64 word"
  Control :: byte
  BoostState :: "64 word"

text \<open>\<open>Thermostat.DecodeInfoEvent\<close> of package heating.\<close>

definition DecodeInfoEvent :: "byte list \<Rightarrow> error + heating_InfoEvent" where
  "DecodeInfoEvent payload =
     (if length payload \<noteq> 6 then Inl (UnexpectedPayloadSize (length payload) 6)
      else Inr
        \<lparr> SetTemperature =
            of_nat (unat (drop_bit 2 (ucast (payload ! 1) :: 64 word) AND 0x3F)) / 2,
          ActualTemperature =
            of_int (sint (((ucast (payload ! 1) :: 64 word) AND 0x3)
                          OR (ucast (payload ! 2) :: 64 word))) / 10,
          Fault = drop_bit 5 (payload ! 3) AND 0x7,
          BatteryState = of_nat (unat (payload ! 3 AND 0x1F)) / 10 + 3 / 2,
          ValveState = ucast (payload ! 4 AND 0x7F),
          Control = drop_bit 6 (payload ! 5) AND 0x3,
          BoostState = ucast (payload ! 5 AND 0x3F) \<rparr>)"

text \<open>
  The formula the specification gives for the actual temperature,
  \<open>((p1 & 0x03) << 8 | p2) / 10\<close>, to compare \<open>DecodeInfoEvent\<close> with.
\<close>

definition actual_spec :: "byte \<Rightarrow> byte \<Rightarrow> rat" where
  "actual_spec p1 p2 =
     of_int (sint (push_bit 8 ((ucast p1 :: 64 word) AND 0x3) OR (ucast p2 :: 64 word))) / 10"

text \<open>
  The field \<open>Temperature\<close> of \<open>WeatherEvent\<close> is \<open>Temperature_degC\<close> here, the name
  \<open>Temperature\<close> being taken by \<open>ProgramEntry\<close>.
\<close>

record WeatherEvent =
  Temperature_degC :: rat
  Humidity :: "64 word"

text \<open>
  \<open>ThermalControl.DecodeWeatherEvent\<close>. The two bytes are combined as \<open>int16\<close> values, masked
  with \<open>0x3FFF\<close>, and the result, still an \<open>int16\<close>, is converted.
\<close>

definition DecodeWeatherEvent :: "byte list \<Rightarrow> error + WeatherEvent" where
  "DecodeWeatherEvent payload =
     (if length payload \<noteq> 3 then Inl (UnexpectedPayloadSize (length payload) 3)
      else Inr
        \<lparr> Temperature_degC =
            of_int (sint ((push_bit 8 (ucast (payload ! 0) :: 16 word)
                            OR (ucast (payload ! 1) :: 16 word)) AND 0x3FFF)) / 10,
          Humidity = ucast (payload ! 2) \<rparr>)"

section \<open>What a reply names\<close>

text \<open>
  The parameter-memory indices a reply payload reports, in the specification's words:
  after \<open>InfoParamResponsePairs\<close> the index of every (index, value) pair, after
  \<open>InfoParamResponseSeq\<close> the run of indices that starts at \<open>payload[1]\<close>, one for each
  byte of \<open>payload[2..]\<close>, counted in a byte. The two end markers report nothing.
\<close>

fun pairIndices :: "byte list \<Rightarrow> nat list" where
  "pairIndices (k # v # rest) = unat k # pairIndices rest"
| "pairIndices rest = []"

definition namedIndices :: "byte list \<Rightarrow> nat list" where
  "namedIndices payload =
     (case payload of
        [] \<Rightarrow> []
      | p0 # rest \<Rightarrow>
          if p0 = InfoParamResponsePairs then
            (if rest = [0x00, 0x00] then [] else pairIndices rest)
          else if p0 = InfoParamResponseSeq then
            (case rest of
               [] \<Rightarrow> []
             | start # run \<Rightarrow>
                 if start = 0x00 then []
                 else map (\<lambda>i. unat (start + of_nat i)) [0..<length run])
          else [])"

text \<open>
  The indices named by the replies of the device with address \<open>a\<close> among the reads
  \<open>rxs\<close>; failed reads, undecodable packets and packets of other devices name nothing.
\<close>

fun mentioned :: "addr \<Rightarrow> rx list \<Rightarrow> nat list" where
  "mentioned a [] = []"
| "mentioned a (RxErr # rxs) = mentioned a rxs"
| "mentioned a (Rx bs # rxs) =
     (case Decode bs of
        Inl e \<Rightarrow> []
      | Inr pkt \<Rightarrow> if Source pkt = a then namedIndices (Payload pkt) else [])
     @ mentioned a rxs"

text \<open>The reads a run has used up, given the states before and after it.\<close>

definition processed :: "state \<Rightarrow> state \<Rightarrow> rx list" where
  "processed s s' = take (length (inbox s) - length (inbox s')) (inbox s)"

section \<open>What is written to the gateway\<close>

text \<open>
  A frame written to the gateway, read back: the sub-command of a \<open>Config\<close> packet (the
  second byte of its payload) and the bytes that follow the sub-command.
\<close>

definition configSub :: "byte list \<Rightarrow> byte option" where
  "configSub frame =
     (case Decode frame of
        Inl e \<Rightarrow> None
      | Inr pkt \<Rightarrow>
          if Cmd pkt = Config then
            (case Payload pkt of
               channel # sub # args \<Rightarrow> Some sub
             | _ \<Rightarrow> None)
          else None)"

definition configArgs :: "byte list \<Rightarrow> byte list" where
  "configArgs frame =
     (case Decode frame of
        Inl e \<Rightarrow> []
      | Inr pkt \<Rightarrow> drop 2 (Payload pkt))"

text \<open>The \<open>ConfigWriteIndexPairs\<close> packets among some frames.\<close>

definition writeIndexFrames :: "byte list list \<Rightarrow> byte list list" where
  "writeIndexFrames frames = filter (\<lambda>f. configSub f = Some ConfigWriteIndexPairs) frames"

text \<open>The frames a run has written, given the states before and after it.\<close>

definition emitted :: "state \<Rightarrow> state \<Rightarrow> byte list list" where
  "emitted s s' = drop (length (outbox s)) (outbox s')"

text \<open>
  A read that is an acceptable acknowledgement in the specification's words: a reply
  packet with \<open>cmd = want\<close> and \<open>payload[0] = 0x00\<close>.
\<close>

definition goodAck :: "byte \<Rightarrow> rx \<Rightarrow> bool" where
  "goodAck want r =
     (case r of
        RxErr \<Rightarrow> False
      | Rx bs \<Rightarrow>
          length bs \<le> 17 + 12 \<and>
          (case Decode bs of
             Inl e \<Rightarrow> False
           | Inr pkt \<Rightarrow> Cmd pkt = want \<and> Payload pkt \<noteq> [] \<and> hd (Payload pkt) = 0x00))"

text \<open>The diff between the loaded memory and the target: the indices where they differ.\<close>

definition diffIndices :: "byte list \<Rightarrow> byte list \<Rightarrow> nat list" where
  "diffIndices devmem target = filter (\<lambda>i. devmem ! i \<noteq> target ! i) [0..<length devmem]"

section \<open>Concrete inputs\<close>

text \<open>
  The packet \<open>PowerSwitch.LevelSet\<close> builds for channel 1, state \<open>On\<close> and no on-time, to the
  power switch \<open>40 c2 a8\<close>, with the source address \<open>fd ee dd\<close> that \<open>WritePacket\<close> fills
  in: \<open>LevelSet\<close> leaves \<open>Msgcnt\<close> out, so \<open>Msgcnt\<close> is 0.
\<close>

definition levelSetPacket :: Packet where
  "levelSetPacket =
     \<lparr> status = 0, info = 0, rssi = 0, Msgcnt = 0, Flags = 0xA0, Cmd = 0x11,
       Source = (0xfd, 0xee, 0xdd), Dest = (0x40, 0xc2, 0xa8),
       Payload = [0x02, 0x01, 0xc8, 0x00, 0x00] \<rparr>"

text \<open>
  A gateway about to deliver one packet from the device \<open>aa bb cc\<close>, of command \<open>0x10\<close>,
  whose payload is \<open>InfoParamResponsePairs\<close> followed by a single byte.
\<close>

definition oddPairsReply :: state where
  "oddPairsReply =
     \<lparr> BCS_Addr = (0xfd, 0xee, 0xdd), Addr = (0xaa, 0xbb, 0xcc), msgcnt = 0,
       messageCounter = 0,
       inbox = [Rx [0x00, 0x00, 0x00, 0x01, 0xA0, 0x10, 0xaa, 0xbb, 0xcc, 0xfd, 0xee, 0xdd,
                    0x02, 0x05]],
       wscript = [], outbox = [] \<rparr>"

text \<open>
  A gateway about to deliver five packets: one from another device, then from the device
  \<open>aa bb cc\<close> a pairs reply for the indices 1 and 5, a run of two bytes from index 10
  on, the end marker, and one more pairs reply that \<open>LoadConfig\<close> does not get to.
  \<open>configRepliesAfter\<close> is the state \<open>LoadConfig\<close> leaves.
\<close>

definition configReplies :: state where
  "configReplies =
     \<lparr> BCS_Addr = (0xfd, 0xee, 0xdd), Addr = (0xaa, 0xbb, 0xcc), msgcnt = 0,
       messageCounter = 0,
       inbox =
         [Rx [0x00, 0x00, 0x00, 0x01, 0xA0, 0x10, 0x11, 0x22, 0x33, 0xfd, 0xee, 0xdd,
              0x02, 0x02, 0xff],
          Rx [0x00, 0x00, 0x00, 0x01, 0xA0, 0x10, 0xaa, 0xbb, 0xcc, 0xfd, 0xee, 0xdd,
              0x02, 0x01, 0x11, 0x05, 0x22],
          Rx [0x00, 0x00, 0x00, 0x02, 0xA0, 0x10, 0xaa, 0xbb, 0xcc, 0xfd, 0xee, 0xdd,
              0x03, 0x0a, 0x33, 0x44],
          Rx [0x00, 0x00, 0x00, 0x03, 0xA0, 0x10, 0xaa, 0xbb, 0xcc, 0xfd, 0xee, 0xdd,
              0x02, 0x00, 0x00],
          Rx [0x00, 0x00, 0x00, 0x04, 0xA0, 0x10, 0xaa, 0xbb, 0xcc, 0xfd, 0xee, 0xdd,
              0x02, 0x02, 0x77]],
       wscript = [], outbox = [] \<rparr>"

definition configRepliesAfter :: state where
  "configRepliesAfter =
     configReplies
       \<lparr> msgcnt := 9, messageCounter := 9,
         inbox := [Rx [0x00, 0x00, 0x00, 0x04, 0xA0, 0x10, 0xaa, 0xbb, 0xcc, 0xfd, 0xee, 0xdd,
                       0x02, 0x02, 0x77]],
         outbox := [[0x00, 0x00, 0x01, 0x00, 0xB0, 0x01, 0xfd, 0xee, 0xdd, 0xaa, 0xbb, 0xcc,
                     0x00, 0x04, 0x00, 0x00, 0x00, 0x00, 0x07]] \<rparr>"

text \<open>
  The three float operations read on exact rationals, which is what they compute on the
  temperatures of the programs in \<open>serial.go\<close> (multiples of 0.5 between 0 and 32), and two
  programs that both cover Saturday: the weekend program of \<open>serial.go\<close> and one for
  Saturday alone.
\<close>

definition exactOps :: "rat float_ops" where
  "exactOps = \<lparr> is_zero = (\<lambda>t. t = 0), seventeen = 17,
                 twice_uint16 = (\<lambda>t. word_of_int \<lfloor>t * 2\<rfloor>) \<rparr>"

definition weekendProgram :: "rat Program" where
  "weekendProgram =
     \<lparr> DayMask = 0x41,
       Endtimes = [\<lparr> Endtime = 360, Temperature = 17 \<rparr>,
                   \<lparr> Endtime = 1380, Temperature = 22 \<rparr>] \<rparr>"

definition saturdayProgram :: "rat Program" where
  "saturdayProgram =
     \<lparr> DayMask = 0x40,
       Endtimes = [\<lparr> Endtime = 480, Temperature = 17 \<rparr>,
                   \<lparr> Endtime = 1320, Temperature = 21 \<rparr>] \<rparr>"

text \<open>
  A gateway whose only reply is the end marker of the device \<open>aa bb cc\<close>, so that the
  loaded memory is all zero, and a callback that sets the first eight bytes to 1.
  \<open>endOnlyReplyLoaded\<close> is the state after \<open>LoadConfig\<close>, \<open>endOnlyReplyConfigured\<close> the state
  after \<open>EnsureConfigured\<close> with that callback.
\<close>

definition endOnlyReply :: state where
  "endOnlyReply =
     \<lparr> BCS_Addr = (0xfd, 0xee, 0xdd), Addr = (0xaa, 0xbb, 0xcc), msgcnt = 0,
       messageCounter = 0,
       inbox = [Rx [0x00, 0x00, 0x00, 0x01, 0xA0, 0x10, 0xaa, 0xbb, 0xcc, 0xfd, 0xee, 0xdd,
                    0x02, 0x00, 0x00]],
       wscript = [], outbox = [] \<rparr>"

definition setEight :: "byte list \<Rightarrow> error option \<times> byte list" where
  "setEight mem = (None, replicate 8 0x01 @ drop 8 mem)"

definition endOnlyReplyLoaded :: state where
  "endOnlyReplyLoaded =
     endOnlyReply
       \<lparr> msgcnt := 9, messageCounter := 9, inbox := [],
         outbox := [[0x00, 0x00, 0x01, 0x00, 0xB0, 0x01, 0xfd, 0xee, 0xdd, 0xaa, 0xbb, 0xcc,
                     0x00, 0x04, 0x00, 0x00, 0x00, 0x00, 0x07]] \<rparr>"

definition endOnlyReplyConfigured :: state where
  "endOnlyReplyConfigured =
     endOnlyReplyLoaded
       \<lparr> msgcnt := 45,
         outbox :=
           [[0x00, 0x00, 0x01, 0x00, 0xB0, 0x01, 0xfd, 0xee, 0xdd, 0xaa, 0xbb, 0xcc,
             0x00, 0x04, 0x00, 0x00, 0x00, 0x00, 0x07],
            [0x00, 0x00, 0x00, 0x09, 0xA0, 0x01, 0xfd, 0xee, 0xdd, 0xaa, 0xbb, 0xcc,
             0x00, 0x05, 0x00, 0x00, 0x00, 0x00, 0x07],
            [0x00, 0x00, 0x00, 0x12, 0xA0, 0x01, 0xfd, 0xee, 0xdd, 0xaa, 0xbb, 0xcc,
             0x00, 0x08, 0x00, 0x01, 0x01, 0x01, 0x02, 0x01, 0x03, 0x01, 0x04, 0x01,
             0x05, 0x01, 0x06, 0x01],
            [0x00, 0x00, 0x00, 0x1b, 0xA0, 0x01, 0xfd, 0xee, 0xdd, 0xaa, 0xbb, 0xcc,
             0x00, 0x08, 0x07, 0x01],
            [0x00, 0x00, 0x00, 0x24, 0xA0, 0x01, 0xfd, 0xee, 0xdd, 0xaa, 0xbb, 0xcc,
             0x00, 0x06]] \<rparr>"

text \<open>
  A gateway about to deliver three packets of the device \<open>aa bb cc\<close>: a peer list with the
  one peer \<open>11 22 33\<close>, channel 1, and the end marker; an acknowledgement of command
  \<open>0x10\<close>; an acknowledgement of command \<open>0x02\<close>. \<open>onePeerListed\<close> is the state after the
  peer list request, \<open>onePeerRead\<close> after the peer list has been read, \<open>onePeerRepeered\<close>
  after the peer has been replaced by \<open>otherPeer\<close>.
\<close>

definition onePeerReplies :: state where
  "onePeerReplies =
     \<lparr> BCS_Addr = (0xfd, 0xee, 0xdd), Addr = (0xaa, 0xbb, 0xcc), msgcnt = 0,
       messageCounter = 0,
       inbox =
         [Rx [0x00, 0x00, 0x00, 0x01, 0xA0, 0x10, 0xaa, 0xbb, 0xcc, 0xfd, 0xee, 0xdd,
              0x01, 0x11, 0x22, 0x33, 0x01, 0x00, 0x00, 0x00, 0x00],
          Rx [0x00, 0x00, 0x00, 0x02, 0x80, 0x10, 0xaa, 0xbb, 0xcc, 0xfd, 0xee, 0xdd,
              0x00],
          Rx [0x00, 0x00, 0x00, 0x03, 0x80, 0x02, 0xaa, 0xbb, 0xcc, 0xfd, 0xee, 0xdd,
              0x00]],
       wscript = [], outbox = [] \<rparr>"

definition onePeerListed :: state where
  "onePeerListed =
     onePeerReplies
       \<lparr> msgcnt := 9, messageCounter := 9,
         outbox := [[0x00, 0x00, 0x01, 0x00, 0xB0, 0x01, 0xfd, 0xee, 0xdd, 0xaa, 0xbb, 0xcc,
                     0x02, 0x03]] \<rparr>"

definition onePeerRead :: state where
  "onePeerRead =
     onePeerListed
       \<lparr> inbox :=
           [Rx [0x00, 0x00, 0x00, 0x02, 0x80, 0x10, 0xaa, 0xbb, 0xcc, 0xfd, 0xee, 0xdd,
                0x00],
            Rx [0x00, 0x00, 0x00, 0x03, 0x80, 0x02, 0xaa, 0xbb, 0xcc, 0xfd, 0xee, 0xdd,
                0x00]] \<rparr>"

definition onePeerRepeered :: state where
  "onePeerRepeered =
     onePeerRead
       \<lparr> msgcnt := 27, inbox := [],
         outbox :=
           [[0x00, 0x00, 0x01, 0x00, 0xB0, 0x01, 0xfd, 0xee, 0xdd, 0xaa, 0xbb, 0xcc,
             0x02, 0x03],
            [0x00, 0x00, 0x01, 0x09, 0xB0, 0x01, 0xfd, 0xee, 0xdd, 0xaa, 0xbb, 0xcc,
             0x02, 0x02, 0x11, 0x22, 0x33, 0x01, 0x00],
            [0x00, 0x00, 0x01, 0x12, 0xB0, 0x01, 0xfd, 0xee, 0xdd, 0xaa, 0xbb, 0xcc,
             0x02, 0x01, 0x44, 0x55, 0x66, 0x02, 0x00]] \<rparr>"

definition listedPeer :: FullyQualifiedChannel where
  "listedPeer = \<lparr> Peer = (0x11, 0x22, 0x33), Channel = 0x01 \<rparr>"

definition otherPeer :: FullyQualifiedChannel where
  "otherPeer = \<lparr> Peer = (0x44, 0x55, 0x66), Channel = 0x02 \<rparr>"

definition listedPeerOtherChannel :: FullyQualifiedChannel where
  "listedPeerOtherChannel = \<lparr> Peer = (0x11, 0x22, 0x33), Channel = 0x02 \<rparr>"

section \<open>Theorems\<close>

subsection \<open>Bytes and words\<close>

lemma uint_byte_lt: "uint (a :: byte) < 256"
  using uint_lt2p [of a] by simp

lemma uint_shift_or:
  "uint (push_bit 8 (ucast a :: 16 word) OR (ucast b :: 16 word)) = uint a * 256 + uint b"
  for a b :: byte
proof -
  have d: "push_bit 8 (uint a) OR uint b = push_bit 8 (uint a) + uint b"
    by (rule disjunctive_add_eq_or [symmetric])
       (auto simp: bit_eq_iff bit_simps dest: bit_imp_le_length)
  have "uint (push_bit 8 (ucast a :: 16 word) OR (ucast b :: 16 word))
        = take_bit 16 (push_bit 8 (uint a)) OR uint b"
    using uint_byte_lt [of a] uint_byte_lt [of b]
    by (simp add: uint_or unsigned_push_bit_eq unsigned_ucast_eq take_bit_int_eq_self)
  also have "take_bit 16 (push_bit 8 (uint a)) = push_bit 8 (uint a)"
    using uint_byte_lt [of a] by (simp add: take_bit_int_eq_self push_bit_eq_mult)
  finally show ?thesis using d by (simp add: push_bit_eq_mult)
qed

lemma uint_weather_field:
  "uint ((push_bit 8 (ucast a :: 16 word) OR (ucast b :: 16 word)) AND 0x3FFF)
     = (uint a * 256 + uint b) mod 16384" for a b :: byte
proof -
  have m: "(0x3FFF :: 16 word) = mask 14" by (simp add: mask_eq_exp_minus_1)
  have "uint (take_bit 14 (push_bit 8 (ucast a :: 16 word) OR (ucast b :: 16 word)))
        = take_bit 14 (uint (push_bit 8 (ucast a :: 16 word) OR (ucast b :: 16 word)))"
    by (rule unsigned_take_bit_eq)
  then show ?thesis
    unfolding m take_bit_eq_mask [symmetric] uint_shift_or
    by (simp only: take_bit_eq_mod) simp
qed

lemma sint_weather_field:
  "sint ((push_bit 8 (ucast a :: 16 word) OR (ucast b :: 16 word)) AND 0x3FFF)
     = (uint a * 256 + uint b) mod 16384" for a b :: byte
proof -
  have "(uint a * 256 + uint b) mod 16384 < 16384" by simp
  moreover have "0 \<le> (uint a * 256 + uint b) mod 16384" by simp
  ultimately show ?thesis
    unfolding sint_uint uint_weather_field
    by (simp add: signed_take_bit_int_eq_self)
qed

lemma sint_ucast_byte: "sint (ucast x :: 64 word) = uint x" for x :: byte
proof -
  have "uint x < 2 ^ 63" by (rule less_trans [OF uint_byte_lt]) simp
  moreover have "- (2 ^ 63) \<le> uint x" by (rule order_trans [of _ 0]) simp_all
  moreover have "take_bit 64 (uint x) = uint x"
    by (rule take_bit_int_eq_self) (simp, rule less_trans [OF uint_byte_lt], simp)
  moreover have "signed_take_bit 63 (uint x) = uint x"
    by (rule signed_take_bit_int_eq_self) fact+
  ultimately show ?thesis
    by (simp add: sint_uint unsigned_ucast_eq)
qed

lemma sint_actual_field:
  "sint (((ucast a :: 64 word) AND 0x3) OR (ucast b :: 64 word)) = uint ((a AND 3) OR b)"
  for a b :: byte
proof -
  have "((ucast a :: 64 word) AND 0x3) OR (ucast b :: 64 word) = ucast ((a AND 3) OR b)"
    by (auto simp: bit_eq_iff bit_simps dest: bit_imp_le_length)
  then show ?thesis by (simp add: sint_ucast_byte)
qed

subsection \<open>Byte stuffing\<close>

lemma escape_eq_escape_spec: "escape b = escape_spec b"
  by (induction b) auto

lemma reescape: "b = 0xfd \<or> b = 0xfc \<Longrightarrow> (b AND 0x7f) OR 0x80 = b" for b :: byte
  by auto

lemma escaped_not_escape_byte: "b = 0xfd \<or> b = 0xfc \<Longrightarrow> b AND 0x7f \<noteq> 0xfc" for b :: byte
  by auto

lemma unescape_loop_escape:
  "unescape_loop (escape b @ t) False =
     (b @ fst (unescape_loop t False), snd (unescape_loop t False))"
proof (induction b)
  case Nil
  show ?case by simp
next
  case (Cons a b)
  show ?case
  proof (cases "a = 0xfd \<or> a = 0xfc")
    case True
    then show ?thesis
      using Cons reescape [OF True] escaped_not_escape_byte [OF True]
      by (auto simp: case_prod_beta)
  next
    case False
    then show ?thesis using Cons by (simp add: case_prod_beta)
  qed
qed

lemma take_escape:
  "\<exists>b1 b2. b = b1 @ b2 \<and>
     ((take n (escape b) = escape b1 \<and> drop n (escape b) = escape b2) \<or>
      (\<exists>x b3. b2 = x # b3 \<and> (x = 0xfd \<or> x = 0xfc)
          \<and> take n (escape b) = escape b1 @ [0xfc]
          \<and> drop n (escape b) = (x AND 0x7f) # escape b3))"
proof (induction b arbitrary: n)
  case Nil
  show ?case by simp
next
  case (Cons a b)
  show ?case
  proof (cases n)
    case 0
    have "a # b = [] @ (a # b) \<and> take n (escape (a # b)) = escape [] \<and> drop n (escape (a # b)) = escape (a # b)"
      using 0 by simp
    then show ?thesis by blast
  next
    case (Suc m)
    show ?thesis
    proof (cases "a = 0xfd \<or> a = 0xfc")
      case False
      from Cons [of m] obtain b1 b2 where
        s: "b = b1 @ b2" and
        c: "(take m (escape b) = escape b1 \<and> drop m (escape b) = escape b2) \<or>
            (\<exists>x b3. b2 = x # b3 \<and> (x = 0xfd \<or> x = 0xfc)
              \<and> take m (escape b) = escape b1 @ [0xfc]
              \<and> drop m (escape b) = (x AND 0x7f) # escape b3)"
        by blast
      have "a # b = (a # b1) @ b2" using s by simp
      moreover have "(take n (escape (a # b)) = escape (a # b1) \<and> drop n (escape (a # b)) = escape b2) \<or>
            (\<exists>x b3. b2 = x # b3 \<and> (x = 0xfd \<or> x = 0xfc)
              \<and> take n (escape (a # b)) = escape (a # b1) @ [0xfc]
              \<and> drop n (escape (a # b)) = (x AND 0x7f) # escape b3)"
        using c False Suc by auto
      ultimately show ?thesis by blast
    next
      case True
      show ?thesis
      proof (cases m)
        case 0
        have "a # b = [] @ (a # b)" by simp
        moreover have "take n (escape (a # b)) = escape [] @ [0xfc]
            \<and> drop n (escape (a # b)) = (a AND 0x7f) # escape b"
          using True Suc 0 by auto
        ultimately show ?thesis using True by blast
      next
        case (Suc m')
        from Cons [of m'] obtain b1 b2 where
          s: "b = b1 @ b2" and
          c: "(take m' (escape b) = escape b1 \<and> drop m' (escape b) = escape b2) \<or>
              (\<exists>x b3. b2 = x # b3 \<and> (x = 0xfd \<or> x = 0xfc)
                \<and> take m' (escape b) = escape b1 @ [0xfc]
                \<and> drop m' (escape b) = (x AND 0x7f) # escape b3)"
          by blast
        have "a # b = (a # b1) @ b2" using s by simp
        moreover have "(take n (escape (a # b)) = escape (a # b1) \<and> drop n (escape (a # b)) = escape b2) \<or>
              (\<exists>x b3. b2 = x # b3 \<and> (x = 0xfd \<or> x = 0xfc)
                \<and> take n (escape (a # b)) = escape (a # b1) @ [0xfc]
                \<and> drop n (escape (a # b)) = (x AND 0x7f) # escape b3)"
          using c True Suc \<open>n = Suc m\<close> by auto
        ultimately show ?thesis by blast
      qed
    qed
  qed
qed


lemma escape_eq_Nil: "escape b = [] \<longleftrightarrow> b = []"
  by (cases b) auto

lemma reader_Read_nonempty:
  assumes "0 < k" and "pending r \<noteq> []"
  shows "\<exists>n. 0 < n \<and> reader_Read k r =
           (take n (pending r), None, r\<lparr>pending := drop n (pending r), chunks := tl (chunks r)\<rparr>)"
proof -
  let ?c = "(case chunks r of [] \<Rightarrow> k | c # _ \<Rightarrow> max 1 c)"
  have "0 < ?c" using assms(1) by (auto simp: max_def split: list.splits)
  then have "0 < min k ?c" using assms(1) by simp
  moreover have "reader_Read k r =
      (take (min k ?c) (pending r), None,
       r\<lparr>pending := drop (min k ?c) (pending r), chunks := tl (chunks r)\<rparr>)"
    using assms(2) by (simp add: reader_Read_def Let_def)
  ultimately show ?thesis by blast
qed

lemma reader_Read_one:
  "reader_Read (Suc 0) \<lparr>pending = x # xs, chunks = cs\<rparr>
     = ([x], None, \<lparr>pending = xs, chunks = tl cs\<rparr>)"
  by (simp add: reader_Read_def Let_def min_def max_def split: list.splits)

lemma unescapingReader_Read_escape:
  assumes "0 < k" and "b \<noteq> []"
  shows "\<exists>b1 b2 cs'. b = b1 @ b2 \<and> b1 \<noteq> []
           \<and> unescapingReader_Read k \<lparr>pending = escape b, chunks = cs\<rparr>
               = (b1, None, \<lparr>pending = escape b2, chunks = cs'\<rparr>)"
proof -
  let ?r = "\<lparr>pending = escape b, chunks = cs\<rparr>"
  have ne: "pending ?r \<noteq> []" using assms(2) by (simp add: escape_eq_Nil)
  from reader_Read_nonempty [OF assms(1) ne] obtain n where
    n: "0 < n" and
    rd: "reader_Read k ?r = (take n (escape b), None, \<lparr>pending = drop n (escape b), chunks = tl cs\<rparr>)"
    by auto
  from take_escape [of b n] obtain b1 b2 where
    s: "b = b1 @ b2" and
    c: "(take n (escape b) = escape b1 \<and> drop n (escape b) = escape b2) \<or>
        (\<exists>x b3. b2 = x # b3 \<and> (x = 0xfd \<or> x = 0xfc)
            \<and> take n (escape b) = escape b1 @ [0xfc]
            \<and> drop n (escape b) = (x AND 0x7f) # escape b3)"
    by blast
  from c show ?thesis
  proof
    assume a: "take n (escape b) = escape b1 \<and> drop n (escape b) = escape b2"
    have "take n (escape b) \<noteq> []" using n ne by (cases "escape b") auto
    then have b1: "b1 \<noteq> []" using a by (auto simp: escape_eq_Nil)
    have "unescape_loop (escape b1) False = (b1, False)"
      using unescape_loop_escape [of b1 "[]"] by simp
    then have "unescapingReader_Read k ?r = (b1, None, \<lparr>pending = escape b2, chunks = tl cs\<rparr>)"
      using assms(1) rd a by (simp add: unescapingReader_Read_def)
    with s b1 show ?thesis by blast
  next
    assume "\<exists>x b3. b2 = x # b3 \<and> (x = 0xfd \<or> x = 0xfc)
            \<and> take n (escape b) = escape b1 @ [0xfc]
            \<and> drop n (escape b) = (x AND 0x7f) # escape b3"
    then obtain x b3 where b2: "b2 = x # b3" and x: "x = 0xfd \<or> x = 0xfc"
      and t: "take n (escape b) = escape b1 @ [0xfc]"
      and d: "drop n (escape b) = (x AND 0x7f) # escape b3"
      by blast
    have "unescape_loop (escape b1 @ [0xfc]) False = (b1, True)"
      using unescape_loop_escape [of b1 "[0xfc]"] by simp
    then have "unescapingReader_Read k ?r
        = (b1 @ [(x AND 0x7f) OR 0x80], None, \<lparr>pending = escape b3, chunks = tl (tl cs)\<rparr>)"
      using assms(1) rd t d by (simp add: unescapingReader_Read_def reader_Read_one)
    then have "unescapingReader_Read k ?r
        = (b1 @ [x], None, \<lparr>pending = escape b3, chunks = tl (tl cs)\<rparr>)"
      using reescape [OF x] by simp
    moreover have "b = (b1 @ [x]) @ b3" using s b2 by simp
    ultimately show ?thesis by blast
  qed
qed

lemma unescape_fuel_escape:
  assumes "0 < k"
  shows "length b < fuel \<Longrightarrow> unescape_fuel fuel k \<lparr>pending = escape b, chunks = cs\<rparr> = Some b"
proof (induction fuel arbitrary: b cs)
  case 0
  then show ?case by simp
next
  case (Suc fuel)
  show ?case
  proof (cases "b = []")
    case True
    then show ?thesis using assms by (simp add: unescapingReader_Read_def reader_Read_def)
  next
    case False
    from unescapingReader_Read_escape [OF assms False, of cs] obtain b1 b2 cs' where
      s: "b = b1 @ b2" and b1: "b1 \<noteq> []" and
      rd: "unescapingReader_Read k \<lparr>pending = escape b, chunks = cs\<rparr>
             = (b1, None, \<lparr>pending = escape b2, chunks = cs'\<rparr>)"
      by blast
    have "length b2 < fuel" using Suc.prems s b1 by (cases b1) auto
    then have "unescape_fuel fuel k \<lparr>pending = escape b2, chunks = cs'\<rparr> = Some b2"
      by (rule Suc.IH)
    then show ?thesis using rd s by simp
  qed
qed

text \<open>
  C2. The source's escaping (\<open>0xfc, b & 0x7f\<close>) is the one the claim words with XOR.
  Whatever is written through \<open>escapingWriter.Write\<close> comes back when it is read through
  \<open>unescapingReader.Read\<close> until the end of the data: for every byte sequence \<open>b\<close>, every
  buffer size \<open>k > 0\<close> and every way \<open>cs\<close> the wrapped reader cuts the escaped bytes into
  reads, any number of rounds above \<open>length b\<close> ends the reading with \<open>b\<close>.
\<close>

theorem unescape_escape:
  assumes "0 < k" and "length b < fuel"
  shows "escape b = escape_spec b
       \<and> unescape_fuel fuel k \<lparr>pending = snd (escapingWriter_Write b []), chunks = cs\<rparr> = Some b"
proof -
  have "snd (escapingWriter_Write b []) = escape b"
    by (cases b) (simp_all add: escapingWriter_Write_def)
  then show ?thesis
    using unescape_fuel_escape [OF assms(1) assms(2)] escape_eq_escape_spec by simp
qed

theorem unescape_escape_witness:
  "(0 :: nat) < 2 \<and> length [0x01, 0xfc, 0xfd, 0x7c :: byte] < 5
   \<and> snd (escapingWriter_Write [0x01, 0xfc, 0xfd, 0x7c] []) = [0x01, 0xfc, 0x7c, 0xfc, 0x7d, 0x7c]
   \<and> unescape_fuel 5 2 \<lparr>pending = [0x01, 0xfc, 0x7c, 0xfc, 0x7d, 0x7c], chunks = [1, 3]\<rparr>
       = Some [0x01, 0xfc, 0xfd, 0x7c]"
proof -
  have k: "(0 :: nat) < 2" by simp
  have f: "length [0x01, 0xfc, 0xfd, 0x7c :: byte] < 5" by simp
  show ?thesis
    using k f unescape_escape [OF k f, of "[1, 3]"]
    by (simp add: escapingWriter_Write_def)
qed

subsection \<open>BidCoS packets\<close>

lemma Decode_Encode:
  "Decode (fst (Encode p c)) =
     Inr \<lparr> status = 0, info = 0,
           rssi = (if Flags p AND 0x10 = 0x10 then 1 else 0),
           Msgcnt = (if Msgcnt p = 0 then c else Msgcnt p),
           Flags = Flags p, Cmd = Cmd p, Source = Source p, Dest = Dest p,
           Payload = Payload p \<rparr>"
  by (cases "Source p"; cases "Dest p") (simp add: Encode_def Decode_def Let_def)

text \<open>
  C1, as the code has it. For every packet \<open>p\<close> with a payload of at most 17 bytes and every
  value \<open>c\<close> of the package-level counter, decoding the encoding of \<open>p\<close> succeeds and gives
  back the \<open>Flags\<close>, \<open>Cmd\<close>, \<open>Source\<close>, \<open>Dest\<close> and \<open>Payload\<close> of \<open>p\<close>; the three leading bytes
  are 0, 0 and the burst byte, which is 1 exactly when \<open>Flags\<close> has the \<open>Burst\<close> bit. \<open>Msgcnt\<close>
  comes back when it is not 0; a \<open>Msgcnt\<close> of 0 comes back as \<open>c\<close>, the counter's value
  before the encoding.
\<close>

theorem Decode_Encode_roundtrip:
  assumes "length (Payload p) \<le> 17"
  shows "\<exists>q. Decode (fst (Encode p c)) = Inr q
           \<and> Msgcnt q = (if Msgcnt p = 0 then c else Msgcnt p)
           \<and> Flags q = Flags p \<and> Cmd q = Cmd p
           \<and> Source q = Source p \<and> Dest q = Dest p \<and> Payload q = Payload p
           \<and> status q = 0 \<and> info q = 0
           \<and> rssi q = (if Flags p AND Burst = Burst then 0x01 else 0x00)"
  by (simp add: Decode_Encode Burst_def)

theorem Decode_Encode_roundtrip_witness:
  "length (Payload levelSetPacket) \<le> 17
   \<and> (\<exists>q. Decode (fst (Encode levelSetPacket 9)) = Inr q
          \<and> Msgcnt q = 9 \<and> Flags q = 0xA0 \<and> Cmd q = 0x11
          \<and> Source q = (0xfd, 0xee, 0xdd) \<and> Dest q = (0x40, 0xc2, 0xa8)
          \<and> Payload q = [0x02, 0x01, 0xc8, 0x00, 0x00]
          \<and> status q = 0 \<and> info q = 0 \<and> rssi q = 0)"
proof -
  have h: "length (Payload levelSetPacket) \<le> 17" by (simp add: levelSetPacket_def)
  show ?thesis
    using h Decode_Encode_roundtrip [OF h, of 9]
    by (simp add: levelSetPacket_def Burst_def)
qed

text \<open>
  C1 as stated fails on \<open>Msgcnt\<close>: the \<open>LevelSet\<close> packet has \<open>Msgcnt\<close> 0, and with the counter
  at 9 its encoding decodes to a packet with \<open>Msgcnt\<close> 9.
\<close>

theorem Decode_Encode_Msgcnt_counterexample:
  "length (Payload levelSetPacket) \<le> 17
   \<and> Decode (fst (Encode levelSetPacket 9)) = Inr (levelSetPacket\<lparr>Msgcnt := 9\<rparr>)
   \<and> Msgcnt (levelSetPacket\<lparr>Msgcnt := 9\<rparr>) \<noteq> Msgcnt levelSetPacket"
  by (simp add: Decode_Encode levelSetPacket_def)

text \<open>
  C5. Encoding a packet whose \<open>Msgcnt\<close> is 0 leaves the package-level counter 9 higher,
  modulo 256, and so does every call of \<open>count\<close> to the device's counter.
\<close>

theorem counters_advance_by_9:
  "(Msgcnt p = 0 \<longrightarrow>
      snd (Encode p counter) = counter + 9
      \<and> unat (snd (Encode p counter)) = (unat counter + 9) mod 256)
   \<and> snd (count m) = m + 9
   \<and> unat (snd (count m)) = (unat m + 9) mod 256"
  by (simp add: Encode_def count_def unat_word_ariths)

theorem counters_advance_by_9_witness:
  "Msgcnt levelSetPacket = 0
   \<and> snd (Encode levelSetPacket 250) = 3
   \<and> snd (count 250) = 3"
  using counters_advance_by_9 [of levelSetPacket 250 250]
  by (simp add: levelSetPacket_def)

subsection \<open>Event decoders\<close>

lemma DecodeInfoEvent_ActualTemperature:
  assumes "length payload = 6"
  shows "\<exists>ie. DecodeInfoEvent payload = Inr ie
           \<and> ActualTemperature ie = of_int (uint ((payload ! 1 AND 3) OR payload ! 2)) / 10"
  using assms by (simp add: DecodeInfoEvent_def sint_actual_field)

lemma DecodeInfoEvent_test_vector:
  "DecodeInfoEvent [0x0a, 0xb0, 0xe2, 0x08, 0x00, 0x00] =
     Inr \<lparr> SetTemperature = 22, ActualTemperature = 226 / 10, Fault = 0,
           BatteryState = 23 / 10, ValveState = 0, Control = 0, BoostState = 0 \<rparr>"
  by (simp add: DecodeInfoEvent_def)

text \<open>
  C8 at the payload \<open>0a b1 04 08 00 00\<close>, a reading of 26.0 degrees: the formula
  \<open>((p1 & 0x03) << 8 | p2) / 10\<close> gives 26, and \<open>DecodeInfoEvent\<close>, which combines the two low
  bits of \<open>p1\<close> with \<open>p2\<close> without shifting them, returns 0.5.
\<close>

theorem DecodeInfoEvent_ActualTemperature_unshifted:
  "DecodeInfoEvent [0x0a, 0xb1, 0x04, 0x08, 0x00, 0x00] =
     Inr \<lparr> SetTemperature = 22, ActualTemperature = 1 / 2, Fault = 0,
           BatteryState = 23 / 10, ValveState = 0, Control = 0, BoostState = 0 \<rparr>
   \<and> actual_spec 0xb1 0x04 = 26"
  by (simp add: DecodeInfoEvent_def actual_spec_def)

text \<open>
  C9, as the code has it. For every payload of three bytes \<open>DecodeWeatherEvent\<close> returns the
  14-bit field \<open>((p0<<8 | p1) & 0x3FFF)\<close> divided by 10, read as an unsigned number: the
  temperature lies between 0 and 1638.3 and is never negative. The humidity is \<open>p2\<close>.
\<close>

theorem DecodeWeatherEvent_unsigned:
  assumes "length payload = 3"
  shows "\<exists>we. DecodeWeatherEvent payload = Inr we
           \<and> Temperature_degC we =
               of_int ((uint (payload ! 0) * 256 + uint (payload ! 1)) mod 16384) / 10
           \<and> 0 \<le> Temperature_degC we \<and> Temperature_degC we \<le> 16383 / 10
           \<and> Humidity we = ucast (payload ! 2)"
proof -
  let ?n = "(uint (payload ! 0) * 256 + uint (payload ! 1)) mod 16384"
  have "0 \<le> ?n" and "?n \<le> 16383" by simp_all
  then have "(0 :: rat) \<le> of_int ?n / 10" and "(of_int ?n :: rat) / 10 \<le> 16383 / 10"
    by simp_all
  with assms show ?thesis
    by (simp add: DecodeWeatherEvent_def sint_weather_field)
qed

theorem DecodeWeatherEvent_unsigned_witness:
  "length [0x00, 0xfd, 0x39 :: byte] = 3
   \<and> (\<exists>we. DecodeWeatherEvent [0x00, 0xfd, 0x39] = Inr we
          \<and> Temperature_degC we = 253 / 10 \<and> Humidity we = 57)"
proof -
  have h: "length [0x00, 0xfd, 0x39 :: byte] = 3" by simp
  show ?thesis
    using h DecodeWeatherEvent_unsigned [OF h]
    by (simp add: DecodeWeatherEvent_def)
qed

text \<open>
  C9 as stated fails where bit 13 of the field is set: at the payload \<open>20 00 00\<close> the field
  is \<open>0x2000\<close>, bit 13 is set, and the temperature returned is 819.2, not a negative one.
\<close>

theorem DecodeWeatherEvent_bit13_counterexample:
  "bit ((push_bit 8 (ucast (0x20 :: byte) :: 16 word) OR (ucast (0x00 :: byte) :: 16 word))
         AND 0x3FFF) 13
   \<and> DecodeWeatherEvent [0x20, 0x00, 0x00] = Inr \<lparr> Temperature_degC = 8192 / 10, Humidity = 0 \<rparr>
   \<and> \<not> (8192 / 10 < (0 :: rat))"
  by (simp add: DecodeWeatherEvent_def bit_iff_odd_drop_bit)

subsection \<open>LoadConfig\<close>

lemma ReadPacket_Ok:
  assumes "ReadPacket s = (Ok pkt, s')"
  shows "\<exists>bs rest. inbox s = Rx bs # rest \<and> length bs \<le> 29 \<and> Decode bs = Inr pkt
           \<and> s' = s\<lparr>inbox := rest\<rparr>"
  using assms
  by (auto simp: ReadPacket_def Gateway_Read_def
           split: list.splits rx.splits if_splits sum.splits)

lemma store_frame:
  assumes "store mem k v = Some mem'"
  shows "length mem' = length mem \<and> (\<forall>i. i \<noteq> unat k \<longrightarrow> mem' ! i = mem ! i)"
  using assms by (auto simp: store_def split: if_splits)

lemma writePairs_frame:
  "writePairs ps mem = Some mem' \<Longrightarrow>
     length mem' = length mem \<and> (\<forall>i. i \<notin> set (pairIndices ps) \<longrightarrow> mem' ! i = mem ! i)"
proof (induction ps mem rule: writePairs.induct)
  case (1 mem)
  then show ?case by simp
next
  case (2 k mem)
  then show ?case by simp
next
  case (3 k v rest mem)
  from "3.prems" obtain m1 where st: "store mem k v = Some m1"
    and w: "writePairs rest m1 = Some mem'"
    by (auto split: option.splits)
  from "3.IH" [OF st w] store_frame [OF st] show ?case by auto
qed

lemma writeSeq_frame:
  "writeSeq start j run mem = Some mem' \<Longrightarrow>
     length mem' = length mem
     \<and> (\<forall>i. i \<notin> set (map (\<lambda>t. unat (start + of_nat t)) [j..<j + length run])
            \<longrightarrow> mem' ! i = mem ! i)"
proof (induction start j run mem rule: writeSeq.induct)
  case (1 start i mem)
  then show ?case by simp
next
  case (2 start j v run mem)
  from "2.prems" obtain m1 where st: "store mem (start + of_nat j) v = Some m1"
    and w: "writeSeq start (Suc j) run m1 = Some mem'"
    by (auto split: option.splits)
  have "[j..<j + length (v # run)] = j # [Suc j..<Suc j + length run]"
    using upt_conv_Cons [of j "j + length (v # run)"] by simp
  with "2.IH" [OF st w] store_frame [OF st] show ?case by auto
qed


lemma ReadConfig_frame:
  "ReadConfig mem s = (Ok (), mem', s') \<Longrightarrow>
     \<exists>n. n \<le> length (inbox s) \<and> inbox s' = drop n (inbox s) \<and> Addr s' = Addr s
        \<and> length mem' = length mem
        \<and> (\<forall>i. i \<notin> set (mentioned (Addr s) (take n (inbox s))) \<longrightarrow> mem' ! i = mem ! i)"
proof (induction mem s rule: ReadConfig.induct)
  case (1 mem s)
  from "1.prems" obtain pkt s1 where rp: "ReadPacket s = (Ok pkt, s1)"
    by (subst (asm) ReadConfig.simps) (auto split: prod.splits outcome.splits)
  from ReadPacket_Ok [OF rp] obtain bs rest where
    ib: "inbox s = Rx bs # rest" and dec: "Decode bs = Inr pkt" and s1: "s1 = s\<lparr>inbox := rest\<rparr>"
    by blast
  have a1: "Addr s1 = Addr s" and i1: "inbox s1 = rest" using s1 by simp_all
  show ?case
  proof (cases "Source pkt \<noteq> Addr s1")
    case True
    then have rc: "ReadConfig mem s1 = (Ok (), mem', s')"
      using "1.prems" rp by (subst (asm) ReadConfig.simps) simp
    from "1.IH"(1) [OF rp [symmetric] refl True rc] obtain n where
      n: "n \<le> length (inbox s1)" "inbox s' = drop n (inbox s1)" "Addr s' = Addr s1"
         "length mem' = length mem"
         "\<forall>i. i \<notin> set (mentioned (Addr s1) (take n (inbox s1))) \<longrightarrow> mem' ! i = mem ! i"
      by blast
    have "Suc n \<le> length (inbox s)" using n(1) ib i1 by simp
    moreover have "inbox s' = drop (Suc n) (inbox s)" using n(2) ib i1 by simp
    moreover have "mentioned (Addr s) (take (Suc n) (inbox s)) = mentioned (Addr s1) (take n (inbox s1))"
      using ib i1 a1 dec True by simp
    ultimately show ?thesis using n a1 by metis
  next
    case False
    then have src: "Source pkt = Addr s" using a1 by simp
    from "1.prems" rp False obtain p0 p1 where pl: "Payload pkt = p0 # p1"
      by (subst (asm) ReadConfig.simps) (auto split: list.splits)
    consider
      (stop) "mem' = mem" "s' = s1" "namedIndices (Payload pkt) = []"
    | (pairs) m1 where "p0 = InfoParamResponsePairs" "p1 \<noteq> [0x00, 0x00]"
        "writePairs p1 mem = Some m1" "ReadConfig m1 s1 = (Ok (), mem', s')"
    | (seq) start run m1 where "p0 \<noteq> InfoParamResponsePairs" "p0 = InfoParamResponseSeq"
        "p1 = start # run" "start \<noteq> 0x00"
        "writeSeq start 0 run mem = Some m1" "ReadConfig m1 s1 = (Ok (), mem', s')"
      using "1.prems" rp False pl
      by (subst (asm) ReadConfig.simps)
         (auto simp: namedIndices_def split: list.splits option.splits if_splits)
    then show ?thesis
    proof cases
      case stop
      have "Suc 0 \<le> length (inbox s)" using ib by simp
      moreover have "inbox s' = drop (Suc 0) (inbox s)" using stop ib i1 by simp
      moreover have "mentioned (Addr s) (take (Suc 0) (inbox s)) = []"
        using ib dec src stop by simp
      ultimately show ?thesis using stop a1 by (intro exI [of _ "Suc 0"]) simp
    next
      case pairs
      from "1.IH"(2) [OF rp [symmetric] refl False pl pairs(1) pairs(2) pairs(3) pairs(4)]
      obtain n where
        n: "n \<le> length (inbox s1)" "inbox s' = drop n (inbox s1)" "Addr s' = Addr s1"
           "length mem' = length m1"
           "\<forall>i. i \<notin> set (mentioned (Addr s1) (take n (inbox s1))) \<longrightarrow> mem' ! i = m1 ! i"
        by blast
      have nm: "namedIndices (Payload pkt) = pairIndices p1"
        using pl pairs by (simp add: namedIndices_def)
      have "Suc n \<le> length (inbox s)" using n(1) ib i1 by simp
      moreover have "inbox s' = drop (Suc n) (inbox s)" using n(2) ib i1 by simp
      moreover have "mentioned (Addr s) (take (Suc n) (inbox s))
          = pairIndices p1 @ mentioned (Addr s1) (take n (inbox s1))"
        using ib i1 a1 dec src nm by simp
      moreover note writePairs_frame [OF pairs(3)]
      ultimately show ?thesis using n a1 by (intro exI [of _ "Suc n"]) simp
    next
      case seq
      from "1.IH"(3) [OF rp [symmetric] refl False pl seq(1) seq(2) seq(3) seq(4) seq(5) seq(6)]
      obtain n where
        n: "n \<le> length (inbox s1)" "inbox s' = drop n (inbox s1)" "Addr s' = Addr s1"
           "length mem' = length m1"
           "\<forall>i. i \<notin> set (mentioned (Addr s1) (take n (inbox s1))) \<longrightarrow> mem' ! i = m1 ! i"
        by blast
      have nm: "namedIndices (Payload pkt)
          = map (\<lambda>i. unat (start + of_nat i)) [0..<0 + length run]"
        using pl seq by (simp add: namedIndices_def)
      have "Suc n \<le> length (inbox s)" using n(1) ib i1 by simp
      moreover have "inbox s' = drop (Suc n) (inbox s)" using n(2) ib i1 by simp
      moreover have "mentioned (Addr s) (take (Suc n) (inbox s))
          = map (\<lambda>i. unat (start + of_nat i)) [0..<0 + length run]
            @ mentioned (Addr s1) (take n (inbox s1))"
        using ib i1 a1 dec src nm by simp
      moreover note writeSeq_frame [OF seq(5)]
      ultimately show ?thesis using n a1 by (intro exI [of _ "Suc n"]) simp
    qed
  qed
qed

lemma sendConfig_inbox:
  "sendConfig flags payload s = (r, s') \<Longrightarrow> inbox s' = inbox s \<and> Addr s' = Addr s"
  by (auto simp: sendConfig_def WritePacket_def count_def Let_def
           split: prod.splits list.splits wres.splits)

text \<open>
  C3. When \<open>LoadConfig\<close> returns without error on a memory of 256 bytes, every index
  that no reply processed by it names (in a pair of an \<open>InfoParamResponsePairs\<close> reply
  or in the run of an \<open>InfoParamResponseSeq\<close> reply of the device) holds the byte it
  held before; on the zeroed memory \<open>EnsureConfigured\<close> passes in, it is still zero.
\<close>

theorem LoadConfig_frame:
  assumes "length mem = 256"
      and "LoadConfig mem channel paramlist s = (Ok (), mem', s')"
      and "i < 256"
      and "i \<notin> set (mentioned (Addr s) (processed s s'))"
  shows "length mem' = 256 \<and> mem' ! i = mem ! i \<and> (mem = replicate 256 0 \<longrightarrow> mem' ! i = 0)"
proof -
  from assms(2) obtain s1 where
    w: "ConfigParamReq_send channel paramlist s = (Ok (), s1)" and
    rc: "ReadConfig mem s1 = (Ok (), mem', s')"
    by (auto simp: LoadConfig_def split: prod.splits outcome.splits)
  from w have s1: "inbox s1 = inbox s" "Addr s1 = Addr s"
    using sendConfig_inbox by (auto simp: ConfigParamReq_send_def)
  from ReadConfig_frame [OF rc] obtain n where
    n: "n \<le> length (inbox s1)" "inbox s' = drop n (inbox s1)"
       "length mem' = length mem"
       "\<forall>i. i \<notin> set (mentioned (Addr s1) (take n (inbox s1))) \<longrightarrow> mem' ! i = mem ! i"
    by blast
  have "processed s s' = take n (inbox s1)"
    using n(1) n(2) s1 by (simp add: processed_def)
  then have "mem' ! i = mem ! i" using n(4) assms(4) s1 by simp
  then show ?thesis using assms(1) assms(3) n(3) by auto
qed


theorem LoadConfig_frame_witness:
  "length (replicate 256 (0 :: byte)) = 256
   \<and> LoadConfig (replicate 256 0) 0 7 configReplies =
       (Ok (), (replicate 256 0)[1 := 0x11, 5 := 0x22, 10 := 0x33, 11 := 0x44],
        configRepliesAfter)
   \<and> (2 :: nat) < 256
   \<and> 2 \<notin> set (mentioned (Addr configReplies) (processed configReplies configRepliesAfter))
   \<and> ((replicate 256 0)[1 := 0x11, 5 := 0x22, 10 := 0x33, 11 := 0x44]) ! 2 = (0 :: byte)"
proof -
  have h1: "length (replicate 256 (0 :: byte)) = 256" by simp
  have h2: "LoadConfig (replicate 256 0) 0 7 configReplies =
       (Ok (), (replicate 256 0)[1 := 0x11, 5 := 0x22, 10 := 0x33, 11 := 0x44],
        configRepliesAfter)"
    by (simp add: configReplies_def configRepliesAfter_def LoadConfig_def
          ConfigParamReq_send_def sendConfig_def count_def WritePacket_def Encode_def
          ReadPacket_def Gateway_Read_def Decode_def InfoParamResponsePairs_def
          InfoParamResponseSeq_def store_def DefaultFlags_def Burst_def BiDi_def
          RepeatEnable_def Config_def ConfigParamReq_def)
  have h3: "(2 :: nat) < 256" by simp
  have h4: "2 \<notin> set (mentioned (Addr configReplies)
                        (processed configReplies configRepliesAfter))"
    by (simp add: configReplies_def configRepliesAfter_def processed_def Decode_def
          namedIndices_def InfoParamResponsePairs_def InfoParamResponseSeq_def)
  show ?thesis
    using h1 h2 h3 h4 LoadConfig_frame [OF h1 h2 h3 h4] by simp
qed

lemma writePairs_odd: "odd (length ps) \<Longrightarrow> writePairs ps mem = None"
  by (induction ps mem rule: writePairs.induct) (auto split: option.splits)

text \<open>
  C10 at a reply whose payload is \<open>InfoParamResponsePairs\<close> followed by one byte
  (\<open>02 05\<close>): \<open>LoadConfig\<close> does not return an error; the read of \<open>p[i+1]\<close> is out of range
  and the run ends in a panic.
\<close>

theorem LoadConfig_odd_pairs_panics:
  "fst (LoadConfig (replicate 256 0) 0 7 oddPairsReply) = Panic"
  by (simp add: oddPairsReply_def LoadConfig_def ConfigParamReq_send_def sendConfig_def
        count_def WritePacket_def Encode_def ReadPacket_def Gateway_Read_def Decode_def
        InfoParamResponsePairs_def)

subsection \<open>EnsureConfigured\<close>

lemma WritePacket_Ok:
  assumes "WritePacket pkt s = (Ok u, s')"
  shows "outbox s' = outbox s @ [fst (Encode (pkt\<lparr>Source := BCS_Addr s\<rparr>) (messageCounter s))]
         \<and> inbox s' = inbox s \<and> Addr s' = Addr s \<and> BCS_Addr s' = BCS_Addr s
         \<and> wscript s' = tl (wscript s) \<and> (wscript s = [] \<or> hd (wscript s) = WOk)"
  using assms
  by (auto simp: WritePacket_def Let_def split: prod.splits list.splits wres.splits)

lemma sendConfig_Ok:
  assumes "sendConfig flags payload s = (Ok u, s')"
  shows "\<exists>f pkt. outbox s' = outbox s @ [f] \<and> Decode f = Inr pkt
           \<and> Cmd pkt = Config \<and> Payload pkt = payload \<and> Flags pkt = flags
           \<and> Dest pkt = Addr s \<and> Source pkt = BCS_Addr s
           \<and> inbox s' = inbox s \<and> Addr s' = Addr s \<and> BCS_Addr s' = BCS_Addr s
           \<and> wscript s' = tl (wscript s) \<and> (wscript s = [] \<or> hd (wscript s) = WOk)"
proof -
  let ?s1 = "s\<lparr>msgcnt := snd (count (msgcnt s))\<rparr>"
  let ?p = "\<lparr> status = 0, info = 0, rssi = 0, Msgcnt = fst (count (msgcnt s)), Flags = flags,
              Cmd = Config, Source = (0, 0, 0), Dest = Addr ?s1, Payload = payload \<rparr>"
  have w: "WritePacket ?p ?s1 = (Ok u, s')"
    using assms by (simp add: sendConfig_def Let_def case_prod_beta)
  from WritePacket_Ok [OF w] Decode_Encode [of "?p\<lparr>Source := BCS_Addr ?s1\<rparr>" "messageCounter ?s1"]
  show ?thesis by simp
qed

lemma sendConfig_sub:
  assumes "sendConfig flags (channel # sub # args) s = (Ok u, s')"
  shows "\<exists>f. outbox s' = outbox s @ [f] \<and> configSub f = Some sub \<and> configArgs f = args"
  using sendConfig_Ok [OF assms] by (auto simp: configSub_def configArgs_def)

lemma length_diffPairs:
  "length (diffPairs devmem target) = 2 * length (diffIndices devmem target)"
proof -
  have "length (concat (map (\<lambda>i. if P i then [a i, b i] else []) xs)) = 2 * length (filter P xs)"
    for P :: "nat \<Rightarrow> bool" and a b :: "nat \<Rightarrow> byte" and xs
    by (induction xs) simp_all
  then show ?thesis by (simp add: diffPairs_def diffIndices_def)
qed

lemma pkts_ceil:
  "(2 * d) div 14 + (if (2 * d) mod 14 > 0 then 1 else 0) = (d + 6) div 7" for d :: nat
proof -
  define q r where "q = d div 7" and "r = d mod 7"
  have d: "d = 7 * q + r" and r: "r < 7" by (simp_all add: q_def r_def)
  have "(2 * d) div 14 = q" by (simp add: q_def)
  moreover have "(2 * d) mod 14 = 2 * r"
    using mult_mod_right [of 2 d 7] by (simp add: r_def)
  moreover have "(d + 6) div 7 = q + (r + 6) div 7"
    unfolding d by (simp add: add.assoc)
  moreover have "(r + 6) div 7 = (if r > 0 then 1 else 0)"
  proof (cases "r = 0")
    case True
    then show ?thesis by simp
  next
    case False
    then have "7 * 1 \<le> r + 6" and "r + 6 < 7 * Suc 1" using r by simp_all
    then have "(r + 6) div 7 = 1" by (rule div_nat_eqI)
    then show ?thesis using False by simp
  qed
  ultimately show ?thesis by simp
qed

lemma writeChunks_Ok:
  "writeChunks i pkts pairs s = (Ok (), s') \<Longrightarrow>
     \<exists>fs. outbox s' = outbox s @ fs \<and> length fs = pkts - i
       \<and> (\<forall>f \<in> set fs. configSub f = Some ConfigWriteIndexPairs
              \<and> (\<exists>j. configArgs f = take 14 (drop (14 * j) pairs)))"
proof (induction i pkts pairs s rule: writeChunks.induct)
  case (1 i pkts pairs s)
  show ?case
  proof (cases "i < pkts")
    case False
    then show ?thesis using "1.prems" by (subst (asm) writeChunks.simps) simp
  next
    case True
    let ?offset = "14 * i"
    let ?rest = "(if 14 < length pairs - ?offset then 14 else length pairs - ?offset)"
    from "1.prems" True have nb: "\<not> length pairs < ?offset"
      by (subst (asm) writeChunks.simps) (auto simp: Let_def split: if_splits)
    from "1.prems" True nb obtain u s1 where
      w: "ConfigWriteIndex 0 (take ?rest (drop ?offset pairs)) s = (Ok u, s1)" and
      r: "writeChunks (Suc i) pkts pairs s1 = (Ok (), s')"
      by (subst (asm) writeChunks.simps)
         (auto simp: Let_def split: if_splits prod.splits outcome.splits)
    from "1.IH" [OF True refl refl nb w [symmetric] refl r] obtain fs where
      fs: "outbox s' = outbox s1 @ fs" "length fs = pkts - Suc i"
          "\<forall>f \<in> set fs. configSub f = Some ConfigWriteIndexPairs
              \<and> (\<exists>j. configArgs f = take 14 (drop (14 * j) pairs))"
      by blast
    from w obtain f where
      f: "outbox s1 = outbox s @ [f]" "configSub f = Some ConfigWriteIndexPairs"
         "configArgs f = take ?rest (drop ?offset pairs)"
      using sendConfig_sub by (fastforce simp: ConfigWriteIndex_def)
    have "take ?rest (drop ?offset pairs) = take 14 (drop ?offset pairs)" by simp
    then have fj: "\<exists>j. configArgs f = take 14 (drop (14 * j) pairs)" using f(3) by metis
    have "outbox s' = outbox s @ (f # fs)" using fs(1) f(1) by simp
    moreover have "length (f # fs) = pkts - i" using fs(2) True by simp
    moreover have "\<forall>g \<in> set (f # fs). configSub g = Some ConfigWriteIndexPairs
              \<and> (\<exists>j. configArgs g = take 14 (drop (14 * j) pairs))"
      using fs(3) f(2) fj by simp
    ultimately show ?thesis by blast
  qed
qed


lemma chunk_length:
  assumes "even (length pairs)"
  shows "length (take 14 (drop (14 * j) pairs)) \<le> 14
         \<and> even (length (take 14 (drop (14 * j) pairs)))"
  using assms by (auto simp: min_def)

lemma EnsureConfigured_frames:
  assumes "LoadConfig (replicate 256 0) channel paramlist s = (Ok (), devmem, s1)"
      and "applyCallback cb devmem = (None, target)"
      and "EnsureConfigured channel paramlist cb s = (Ok (), s')"
  shows "\<exists>fs. outbox s' = outbox s1 @ fs
           \<and> map configSub fs =
               (if diffIndices devmem target = [] then []
                else Some ConfigStart
                       # replicate ((length (diffIndices devmem target) + 6) div 7)
                           (Some ConfigWriteIndexPairs)
                       @ [Some ConfigEnd])
           \<and> (\<forall>f \<in> set fs. configSub f = Some ConfigWriteIndexPairs \<longrightarrow>
                  length (configArgs f) \<le> 14 \<and> even (length (configArgs f)))"
proof (cases "diffIndices devmem target = []")
  case True
  then have "length (diffPairs devmem target) = 0" by (simp add: length_diffPairs)
  then have "s' = s1" using assms by (simp add: EnsureConfigured_def Let_def)
  then show ?thesis using True by simp
next
  case False
  let ?pairs = "diffPairs devmem target"
  let ?d = "length (diffIndices devmem target)"
  let ?pkts = "length ?pairs div 14 + (if length ?pairs mod 14 > 0 then 1 else 0)"
  have lp: "length ?pairs = 2 * ?d" by (rule length_diffPairs)
  have ne: "length ?pairs \<noteq> 0" using False lp by simp
  have pk: "?pkts = (?d + 6) div 7" unfolding lp by (rule pkts_ceil)
  from assms ne obtain u2 s2 u3 s3 where
    st: "ConfigStart_send channel paramlist s1 = (Ok u2, s2)" and
    wc: "writeChunks 0 ?pkts ?pairs s2 = (Ok u3, s3)" and
    en: "ConfigEnd_send channel s3 = (Ok (), s')"
    by (auto simp: EnsureConfigured_def Let_def split: prod.splits outcome.splits if_splits)
  from st obtain f0 where
    f0: "outbox s2 = outbox s1 @ [f0]" "configSub f0 = Some ConfigStart"
    using sendConfig_sub by (fastforce simp: ConfigStart_send_def)
  from en obtain fe where
    fe: "outbox s' = outbox s3 @ [fe]" "configSub fe = Some ConfigEnd"
    using sendConfig_sub by (fastforce simp: ConfigEnd_send_def)
  from writeChunks_Ok [of 0 ?pkts ?pairs s2 s3] wc obtain fs where
    fs: "outbox s3 = outbox s2 @ fs" "length fs = ?pkts"
        "\<forall>f \<in> set fs. configSub f = Some ConfigWriteIndexPairs
              \<and> (\<exists>j. configArgs f = take 14 (drop (14 * j) ?pairs))"
    by auto
  have "map configSub fs = map (\<lambda>f. Some ConfigWriteIndexPairs) fs"
    using fs(3) by simp
  then have "map configSub fs = replicate (length fs) (Some ConfigWriteIndexPairs)"
    by (simp only: map_replicate_const)
  then have subs: "map configSub fs = replicate ?pkts (Some ConfigWriteIndexPairs)"
    by (simp only: fs(2))
  have ev: "even (length ?pairs)" using lp by simp
  have args: "\<forall>f \<in> set fs. length (configArgs f) \<le> 14 \<and> even (length (configArgs f))"
    using fs(3) chunk_length [OF ev] by metis
  have "outbox s' = outbox s1 @ (f0 # fs @ [fe])" using f0(1) fs(1) fe(1) by simp
  moreover have "map configSub (f0 # fs @ [fe]) =
      Some ConfigStart # replicate ((?d + 6) div 7) (Some ConfigWriteIndexPairs) @ [Some ConfigEnd]"
    using f0(2) fe(2) subs pk by simp
  moreover have "\<forall>f \<in> set (f0 # fs @ [fe]). configSub f = Some ConfigWriteIndexPairs \<longrightarrow>
                  length (configArgs f) \<le> 14 \<and> even (length (configArgs f))"
    using args f0(2) fe(2) by (simp add: ConfigStart_def ConfigEnd_def ConfigWriteIndexPairs_def)
  ultimately show ?thesis using False by (intro exI [of _ "f0 # fs @ [fe]"]) simp
qed


text \<open>
  C4, as the code has it. When \<open>EnsureConfigured\<close> returns without error, with \<open>devmem\<close>
  loaded and \<open>target\<close> left by the callback, the frames written after \<open>LoadConfig\<close> are:
  none at all when the diff \<open>D\<close> is empty, as it is for the identity callback; otherwise
  one \<open>ConfigStart\<close>, then \<open>ceil(|D|/7)\<close> packets \<open>ConfigWriteIndexPairs\<close>, then one
  \<open>ConfigEnd\<close>. Each \<open>ConfigWriteIndexPairs\<close> packet carries an even number of at most 14
  bytes, that is at most 7 index/value pairs.
\<close>

theorem EnsureConfigured_packets:
  assumes "LoadConfig (replicate 256 0) channel paramlist s = (Ok (), devmem, s1)"
      and "applyCallback cb devmem = (None, target)"
      and "EnsureConfigured channel paramlist cb s = (Ok (), s')"
  shows "outbox s' = outbox s1 @ emitted s1 s'
       \<and> map configSub (emitted s1 s') =
           (if diffIndices devmem target = [] then []
            else Some ConfigStart
                   # replicate ((length (diffIndices devmem target) + 6) div 7)
                       (Some ConfigWriteIndexPairs)
                   @ [Some ConfigEnd])
       \<and> length (writeIndexFrames (emitted s1 s')) = (length (diffIndices devmem target) + 6) div 7
       \<and> (\<forall>f \<in> set (writeIndexFrames (emitted s1 s')).
              length (configArgs f) \<le> 14 \<and> even (length (configArgs f)))
       \<and> (target = devmem \<longrightarrow> emitted s1 s' = [])"
proof -
  let ?n = "(length (diffIndices devmem target) + 6) div 7"
  from EnsureConfigured_frames [OF assms] obtain fs where
    o: "outbox s' = outbox s1 @ fs" and
    m: "map configSub fs =
          (if diffIndices devmem target = [] then []
           else Some ConfigStart # replicate ?n (Some ConfigWriteIndexPairs) @ [Some ConfigEnd])" and
    l: "\<forall>f \<in> set fs. configSub f = Some ConfigWriteIndexPairs \<longrightarrow>
           length (configArgs f) \<le> 14 \<and> even (length (configArgs f))"
    by blast
  have e: "emitted s1 s' = fs" using o by (simp add: emitted_def)
  have "length (writeIndexFrames fs)
          = length (filter (\<lambda>x. x = Some ConfigWriteIndexPairs) (map configSub fs))"
    by (simp add: writeIndexFrames_def filter_map comp_def)
  also have "\<dots> = ?n"
    unfolding m by (simp add: ConfigStart_def ConfigEnd_def ConfigWriteIndexPairs_def)
  finally have c: "length (writeIndexFrames fs) = ?n" .
  have "diffIndices devmem devmem = []" by (simp add: diffIndices_def)
  then have i: "target = devmem \<longrightarrow> fs = []" using m by auto
  show ?thesis using o m l c i unfolding e by (simp add: writeIndexFrames_def)
qed

lemma endOnlyReply_run:
  "LoadConfig (replicate 256 0) 0 7 endOnlyReply = (Ok (), replicate 256 0, endOnlyReplyLoaded)"
  "applyCallback setEight (replicate 256 0) = (None, replicate 8 0x01 @ replicate 248 0)"
  "EnsureConfigured 0 7 setEight endOnlyReply = (Ok (), endOnlyReplyConfigured)"
  by code_simp+

theorem EnsureConfigured_packets_witness:
  "LoadConfig (replicate 256 0) 0 7 endOnlyReply = (Ok (), replicate 256 0, endOnlyReplyLoaded)
   \<and> applyCallback setEight (replicate 256 0) = (None, replicate 8 0x01 @ replicate 248 0)
   \<and> EnsureConfigured 0 7 setEight endOnlyReply = (Ok (), endOnlyReplyConfigured)
   \<and> length (diffIndices (replicate 256 0) (replicate 8 0x01 @ replicate 248 0)) = 8
   \<and> map configSub (emitted endOnlyReplyLoaded endOnlyReplyConfigured) =
         [Some ConfigStart, Some ConfigWriteIndexPairs, Some ConfigWriteIndexPairs, Some ConfigEnd]
   \<and> length (writeIndexFrames (emitted endOnlyReplyLoaded endOnlyReplyConfigured)) = 2"
proof -
  have d: "length (diffIndices (replicate 256 0) (replicate 8 0x01 @ replicate 248 0)) = 8"
    by code_simp
  then have n: "diffIndices (replicate 256 0) (replicate 8 0x01 @ replicate 248 0) \<noteq> []"
    by auto
  have r: "replicate 2 (Some ConfigWriteIndexPairs)
             = [Some ConfigWriteIndexPairs, Some ConfigWriteIndexPairs]"
    by (simp add: numeral_2_eq_2)
  show ?thesis
    using endOnlyReply_run d n r
      EnsureConfigured_packets [OF endOnlyReply_run(1) endOnlyReply_run(2) endOnlyReply_run(3)]
    by simp
qed

text \<open>
  C4 as stated fails on the count: with a diff of 8 indices two \<open>ConfigWriteIndexPairs\<close>
  packets are written (7 pairs and 1 pair), where \<open>ceil(8/14)\<close> is 1.
\<close>

theorem EnsureConfigured_packet_count_counterexample:
  "LoadConfig (replicate 256 0) 0 7 endOnlyReply = (Ok (), replicate 256 0, endOnlyReplyLoaded)
   \<and> applyCallback setEight (replicate 256 0) = (None, replicate 8 0x01 @ replicate 248 0)
   \<and> EnsureConfigured 0 7 setEight endOnlyReply = (Ok (), endOnlyReplyConfigured)
   \<and> length (diffIndices (replicate 256 0) (replicate 8 0x01 @ replicate 248 0)) = 8
   \<and> length (writeIndexFrames (emitted endOnlyReplyLoaded endOnlyReplyConfigured)) = 2
   \<and> (2 :: nat) \<noteq> (8 + 13) div 14"
  by code_simp

subsection \<open>EnsurePeeredWith\<close>

lemma ReadPacket_writes:
  assumes "ReadPacket s = (r, s')"
  shows "outbox s' = outbox s \<and> wscript s' = wscript s"
  using assms
  by (auto simp: ReadPacket_def Gateway_Read_def
           split: list.splits rx.splits if_splits sum.splits)

lemma ReadPeers_writes:
  "ReadPeers peers s = (r, s') \<Longrightarrow> outbox s' = outbox s \<and> wscript s' = wscript s"
proof (induction peers s rule: ReadPeers.induct)
  case (1 peers s)
  obtain r1 s1 where rp: "ReadPacket s = (r1, s1)" by (cases "ReadPacket s")
  note w = ReadPacket_writes [OF rp]
  show ?case
  proof (cases r1)
    case (Ok pkt)
    show ?thesis
    proof (cases "Source pkt \<noteq> Addr s1")
      case True
      then have "ReadPeers peers s1 = (r, s')"
        using "1.prems" rp Ok by (subst (asm) ReadPeers.simps) simp
      from "1.IH"(1) [OF rp [symmetric] Ok True this] w show ?thesis by simp
    next
      case src: False
      show ?thesis
      proof (cases "Payload pkt")
        case Nil
        then show ?thesis
          using "1.prems" rp Ok src w by (subst (asm) ReadPeers.simps) auto
      next
        case (Cons p0 list)
        show ?thesis
        proof (cases "p0 \<noteq> 0x01")
          case True
          then show ?thesis
            using "1.prems" rp Ok src Cons w by (subst (asm) ReadPeers.simps) auto
        next
          case p0: False
          obtain fin peers' where pr: "peerRecords list peers = (fin, peers')"
            by (cases "peerRecords list peers")
          show ?thesis
          proof (cases fin)
            case True
            then show ?thesis
              using "1.prems" rp Ok src Cons p0 pr w
              by (subst (asm) ReadPeers.simps) auto
          next
            case False
            then have fin: "fin = False" by simp
            then have "ReadPeers peers' s1 = (r, s')"
              using "1.prems" rp Ok src Cons p0 pr
              by (subst (asm) ReadPeers.simps) (simp del: ReadPeers.simps)
            from "1.IH"(2) [OF rp [symmetric] Ok src Cons p0 pr [symmetric] fin this] w
            show ?thesis by simp
          qed
        qed
      qed
    qed
  next
    case (Err e)
    then show ?thesis using "1.prems" rp w by (subst (asm) ReadPeers.simps) auto
  next
    case Panic
    then show ?thesis using "1.prems" rp w by (subst (asm) ReadPeers.simps) auto
  qed
qed

lemma readAck_result:
  assumes "readAck want s = (r, s')"
  shows "r \<noteq> Panic \<and> (r = Ok () \<longleftrightarrow> inbox s \<noteq> [] \<and> goodAck want (hd (inbox s)))
         \<and> inbox s' = tl (inbox s) \<and> outbox s' = outbox s \<and> wscript s' = wscript s
         \<and> Addr s' = Addr s \<and> BCS_Addr s' = BCS_Addr s"
  using assms
  by (auto simp: readAck_def ReadPacket_def Gateway_Read_def goodAck_def hd_conv_nth
           split: list.splits rx.splits if_splits sum.splits)

lemma sendConfig_accepted:
  assumes "wscript s = []"
  shows "\<exists>s' f. sendConfig flags (channel # sub # args) s = (Ok (), s')
           \<and> outbox s' = outbox s @ [f] \<and> configSub f = Some sub \<and> configArgs f = args
           \<and> inbox s' = inbox s \<and> wscript s' = [] \<and> Addr s' = Addr s"
proof -
  let ?s1 = "s\<lparr>msgcnt := snd (count (msgcnt s))\<rparr>"
  let ?p = "\<lparr> status = 0, info = 0, rssi = 0, Msgcnt = fst (count (msgcnt s)), Flags = flags,
              Cmd = Config, Source = BCS_Addr ?s1, Dest = Addr ?s1,
              Payload = channel # sub # args \<rparr>"
  let ?f = "fst (Encode ?p (messageCounter ?s1))"
  have "sendConfig flags (channel # sub # args) s =
          (Ok (), ?s1\<lparr>messageCounter := snd (Encode ?p (messageCounter ?s1)),
                      outbox := outbox s @ [?f]\<rparr>)"
    using assms by (simp add: sendConfig_def WritePacket_def Let_def case_prod_beta)
  moreover have "configSub ?f = Some sub" and "configArgs ?f = args"
    by (simp_all add: configSub_def configArgs_def Decode_Encode)
  ultimately show ?thesis using assms by simp
qed


lemma two_acks:
  "(inbox s \<noteq> [] \<and> goodAck a (hd (inbox s))
      \<and> tl (inbox s) \<noteq> [] \<and> goodAck b (hd (tl (inbox s))))
   \<longleftrightarrow> (\<exists>a1 a2 rest. inbox s = a1 # a2 # rest \<and> goodAck a a1 \<and> goodAck b a2)"
  by (cases "inbox s"; cases "tl (inbox s)") auto

text \<open>
  C7, as the code has it. Let the peer list request be written and the peer list hold
  exactly one peer. If its address equals the desired peer's address (the channels are
  not compared), \<open>EnsurePeeredWith\<close> returns without error and writes nothing more.
  Otherwise, on a gateway that accepts the writes, a \<open>ConfigPeerRemove\<close> for the existing
  peer and its channel is written first; only if the next read is a reply with command
  \<open>0x10\<close> and first payload byte \<open>0x00\<close> a \<open>ConfigPeerAdd\<close> for the desired peer follows,
  and the result is success exactly when the read after that is a reply with command
  \<open>0x02\<close> and first payload byte \<open>0x00\<close>. Every other case is an error, never a panic.
\<close>

theorem EnsurePeeredWith_one_peer:
  assumes "ConfigPeerListReq_send channel s = (Ok (), s1)"
      and "ReadPeers [] s1 = (Ok [existing], s2)"
  shows "(Peer existing = Peer dest \<longrightarrow>
            EnsurePeeredWith channel dest s = (Ok (), s2) \<and> emitted s1 s2 = [])
       \<and> (Peer existing \<noteq> Peer dest \<and> wscript s2 = [] \<longrightarrow>
            fst (EnsurePeeredWith channel dest s) \<noteq> Panic
            \<and> (fst (EnsurePeeredWith channel dest s) = Ok () \<longleftrightarrow>
                 (\<exists>a1 a2 rest. inbox s2 = a1 # a2 # rest
                     \<and> goodAck 0x10 a1 \<and> goodAck 0x02 a2))
            \<and> map configSub (emitted s2 (snd (EnsurePeeredWith channel dest s))) =
                 (if inbox s2 \<noteq> [] \<and> goodAck 0x10 (hd (inbox s2))
                  then [Some ConfigPeerRemove, Some ConfigPeerAdd]
                  else [Some ConfigPeerRemove])
            \<and> map configArgs (emitted s2 (snd (EnsurePeeredWith channel dest s))) =
                 (if inbox s2 \<noteq> [] \<and> goodAck 0x10 (hd (inbox s2))
                  then [addr_bytes (Peer existing) @ [Channel existing, 0x00],
                        addr_bytes (Peer dest) @ [Channel dest, 0x00]]
                  else [addr_bytes (Peer existing) @ [Channel existing, 0x00]]))"
proof (intro conjI impI)
  assume same: "Peer existing = Peer dest"
  show "EnsurePeeredWith channel dest s = (Ok (), s2)"
    using assms same by (simp add: EnsurePeeredWith_def)
  show "emitted s1 s2 = []"
    using ReadPeers_writes [OF assms(2)] by (simp add: emitted_def)
next
  assume h: "Peer existing \<noteq> Peer dest \<and> wscript s2 = []"
  then have differ: "Peer existing \<noteq> Peer dest" and ws: "wscript s2 = []" by simp_all
  let ?E = "EnsurePeeredWith channel dest s"
  let ?good1 = "inbox s2 \<noteq> [] \<and> goodAck 0x10 (hd (inbox s2))"
  let ?rem = "addr_bytes (Peer existing) @ [Channel existing, 0x00]"
  let ?add = "addr_bytes (Peer dest) @ [Channel dest, 0x00]"
  from sendConfig_accepted [OF ws, of "DefaultFlags OR Burst" channel ConfigPeerRemove ?rem]
  obtain s3 f1 where
    rm: "ConfigPeerRemove_send channel (Peer existing) (Channel existing) s2 = (Ok (), s3)" and
    s3: "outbox s3 = outbox s2 @ [f1]" "configSub f1 = Some ConfigPeerRemove"
        "configArgs f1 = ?rem" "inbox s3 = inbox s2" "wscript s3 = []"
    by (auto simp: ConfigPeerRemove_send_def)
  obtain r1 s4 where a1: "readAck 0x10 s3 = (r1, s4)" by (cases "readAck 0x10 s3")
  from readAck_result [OF a1] s3 have
    r1: "r1 \<noteq> Panic" "r1 = Ok () \<longleftrightarrow> ?good1" and
    s4: "inbox s4 = tl (inbox s2)" "outbox s4 = outbox s2 @ [f1]" "wscript s4 = []"
    by simp_all
  have E1: "?E = (case r1 of Ok u \<Rightarrow> addPeer channel dest s4
                   | Err e \<Rightarrow> (Err e, s4) | Panic \<Rightarrow> (Panic, s4))"
    using assms differ rm a1 by (simp add: EnsurePeeredWith_def)
  have all: "fst ?E \<noteq> Panic
      \<and> (fst ?E = Ok () \<longleftrightarrow>
            (\<exists>a1 a2 rest. inbox s2 = a1 # a2 # rest \<and> goodAck 0x10 a1 \<and> goodAck 0x02 a2))
      \<and> map configSub (emitted s2 (snd ?E)) =
            (if ?good1 then [Some ConfigPeerRemove, Some ConfigPeerAdd]
             else [Some ConfigPeerRemove])
      \<and> map configArgs (emitted s2 (snd ?E)) = (if ?good1 then [?rem, ?add] else [?rem])"
  proof (cases r1)
    case (Ok u)
    then have g1: "?good1" using r1(2) by simp
    from sendConfig_accepted [OF s4(3), of "DefaultFlags OR Burst" channel ConfigPeerAdd ?add]
    obtain s5 f2 where
      ad: "ConfigPeerAdd_send channel (Peer dest) (Channel dest) s4 = (Ok (), s5)" and
      s5: "outbox s5 = outbox s4 @ [f2]" "configSub f2 = Some ConfigPeerAdd"
          "configArgs f2 = ?add" "inbox s5 = inbox s4"
      by (auto simp: ConfigPeerAdd_send_def)
    obtain r2 s6 where a2: "readAck 0x02 s5 = (r2, s6)" by (cases "readAck 0x02 s5")
    from readAck_result [OF a2] s5 s4 have
      r2: "r2 \<noteq> Panic"
          "r2 = Ok () \<longleftrightarrow> tl (inbox s2) \<noteq> [] \<and> goodAck 0x02 (hd (tl (inbox s2)))" and
      s6: "outbox s6 = outbox s2 @ [f1, f2]"
      by simp_all
    have E2: "?E = (r2, s6)" using E1 Ok ad a2 by (simp add: addPeer_def)
    have "r2 = Ok () \<longleftrightarrow>
            (\<exists>a1 a2 rest. inbox s2 = a1 # a2 # rest \<and> goodAck 0x10 a1 \<and> goodAck 0x02 a2)"
      using r2(2) g1 two_acks [of s2 "0x10" "0x02"] by blast
    moreover have "emitted s2 s6 = [f1, f2]" using s6 by (simp add: emitted_def)
    ultimately show ?thesis using E2 r2(1) g1 s3 s5 by simp
  next
    case (Err e)
    then have g1: "\<not> ?good1" using r1(2) by simp
    have E2: "?E = (Err e, s4)" using E1 Err by simp
    have "\<not> (\<exists>a1 a2 rest. inbox s2 = a1 # a2 # rest \<and> goodAck 0x10 a1 \<and> goodAck 0x02 a2)"
      using g1 by auto
    moreover have "emitted s2 s4 = [f1]" using s4 by (simp add: emitted_def)
    ultimately show ?thesis using E2 g1 s3 by simp
  next
    case Panic
    then show ?thesis using r1(1) by simp
  qed
  from all show "fst ?E \<noteq> Panic" by blast
  from all show "fst ?E = Ok () \<longleftrightarrow>
            (\<exists>a1 a2 rest. inbox s2 = a1 # a2 # rest \<and> goodAck 0x10 a1 \<and> goodAck 0x02 a2)"
    by blast
  from all show "map configSub (emitted s2 (snd ?E)) =
            (if ?good1 then [Some ConfigPeerRemove, Some ConfigPeerAdd]
             else [Some ConfigPeerRemove])"
    by blast
  from all show "map configArgs (emitted s2 (snd ?E)) = (if ?good1 then [?rem, ?add] else [?rem])"
    by blast
qed


lemma onePeerReplies_run:
  "ConfigPeerListReq_send 2 onePeerReplies = (Ok (), onePeerListed)"
  "ReadPeers [] onePeerListed = (Ok [listedPeer], onePeerRead)"
  by code_simp+

theorem EnsurePeeredWith_one_peer_witness:
  "ConfigPeerListReq_send 2 onePeerReplies = (Ok (), onePeerListed)
   \<and> ReadPeers [] onePeerListed = (Ok [listedPeer], onePeerRead)
   \<and> Peer listedPeer = Peer listedPeerOtherChannel
   \<and> EnsurePeeredWith 2 listedPeerOtherChannel onePeerReplies = (Ok (), onePeerRead)
   \<and> Peer listedPeer \<noteq> Peer otherPeer \<and> wscript onePeerRead = []
   \<and> fst (EnsurePeeredWith 2 otherPeer onePeerReplies) = Ok ()
   \<and> map configSub (emitted onePeerRead (snd (EnsurePeeredWith 2 otherPeer onePeerReplies)))
       = [Some ConfigPeerRemove, Some ConfigPeerAdd]
   \<and> map configArgs (emitted onePeerRead (snd (EnsurePeeredWith 2 otherPeer onePeerReplies)))
       = [[0x11, 0x22, 0x33, 0x01, 0x00], [0x44, 0x55, 0x66, 0x02, 0x00]]"
proof -
  have same: "Peer listedPeer = Peer listedPeerOtherChannel"
    by (simp add: listedPeer_def listedPeerOtherChannel_def)
  have differ: "Peer listedPeer \<noteq> Peer otherPeer \<and> wscript onePeerRead = []"
    by (simp add: listedPeer_def otherPeer_def onePeerRead_def onePeerListed_def
          onePeerReplies_def)
  have acks: "inbox onePeerRead \<noteq> [] \<and> goodAck 0x10 (hd (inbox onePeerRead))"
    "\<exists>a1 a2 rest. inbox onePeerRead = a1 # a2 # rest \<and> goodAck 0x10 a1 \<and> goodAck 0x02 a2"
    by (simp_all add: onePeerRead_def onePeerListed_def onePeerReplies_def goodAck_def
          Decode_def)
  from EnsurePeeredWith_one_peer [OF onePeerReplies_run, of listedPeerOtherChannel] same
  have A: "EnsurePeeredWith 2 listedPeerOtherChannel onePeerReplies = (Ok (), onePeerRead)"
    by blast
  from EnsurePeeredWith_one_peer [OF onePeerReplies_run, of otherPeer] differ acks
  have B: "fst (EnsurePeeredWith 2 otherPeer onePeerReplies) = Ok ()"
    "map configSub (emitted onePeerRead (snd (EnsurePeeredWith 2 otherPeer onePeerReplies)))
       = [Some ConfigPeerRemove, Some ConfigPeerAdd]"
    "map configArgs (emitted onePeerRead (snd (EnsurePeeredWith 2 otherPeer onePeerReplies)))
       = [addr_bytes (Peer listedPeer) @ [Channel listedPeer, 0x00],
          addr_bytes (Peer otherPeer) @ [Channel otherPeer, 0x00]]"
    by simp_all
  have C: "addr_bytes (Peer listedPeer) @ [Channel listedPeer, 0x00]
             = [0x11, 0x22, 0x33, 0x01, 0x00]"
    "addr_bytes (Peer otherPeer) @ [Channel otherPeer, 0x00] = [0x44, 0x55, 0x66, 0x02, 0x00]"
    by (simp_all add: listedPeer_def otherPeer_def)
  show ?thesis
    using onePeerReplies_run same differ A B unfolding C by (simp only: simp_thms)
qed

text \<open>
  C7 as stated fails where only the channel differs: the listed peer is \<open>11 22 33\<close>,
  channel 1, the desired one \<open>11 22 33\<close>, channel 2; they differ as
  \<open>FullyQualifiedChannel\<close>, and \<open>EnsurePeeredWith\<close> returns without error having written
  neither \<open>ConfigPeerRemove\<close> nor \<open>ConfigPeerAdd\<close>.
\<close>

theorem EnsurePeeredWith_channel_counterexample:
  "ConfigPeerListReq_send 2 onePeerReplies = (Ok (), onePeerListed)
   \<and> ReadPeers [] onePeerListed = (Ok [listedPeer], onePeerRead)
   \<and> listedPeer \<noteq> listedPeerOtherChannel
   \<and> EnsurePeeredWith 2 listedPeerOtherChannel onePeerReplies = (Ok (), onePeerRead)
   \<and> emitted onePeerListed onePeerRead = []"
  by code_simp

subsection \<open>The program encoder\<close>

lemma length_encodeProgramDay: "length (encodeProgramDay ops entries) = 26"
  by (simp add: encodeProgramDay_def encodeEntry_def length_concat Let_def comp_def
        sum_list_triv)

lemma copyAt_fits:
  assumes "off + length src \<le> length mem"
  shows "copyAt mem off src = Some (take off mem @ src @ drop (off + length src) mem)"
  using assms by (auto simp: copyAt_def Let_def min_def)

lemma put_length:
  assumes "off + length src \<le> length mem"
  shows "length (take off mem @ src @ drop (off + length src) mem) = length mem"
  using assms by simp

lemma put_window:
  assumes "off + length src \<le> length mem"
  shows "take (length src) (drop off (take off mem @ src @ drop (off + length src) mem)) = src"
  using assms by simp

lemma put_other:
  assumes "off + length src \<le> length mem"
      and "off' + n \<le> off \<or> off + length src \<le> off'"
  shows "take n (drop off' (take off mem @ src @ drop (off + length src) mem))
           = take n (drop off' mem)"
proof -
  define X where "X = take off mem @ src @ drop (off + length src) mem"
  have lx: "length X = length mem" using assms(1) by (simp add: X_def)
  have "take n (drop off' X) = take n (drop off' mem)"
  proof (rule nth_equalityI)
    show "length (take n (drop off' X)) = length (take n (drop off' mem))"
      by (simp add: lx)
  next
    fix i
    assume "i < length (take n (drop off' X))"
    then have i: "i < n" "off' + i < length mem" using lx by auto
    have "X ! (off' + i) = mem ! (off' + i)"
      using assms(2)
    proof
      assume "off' + n \<le> off"
      then show ?thesis using i assms(1) by (simp add: X_def nth_append)
    next
      assume h: "off + length src \<le> off'"
      define j where "j = off' + i - (off + length src)"
      have e: "off' + i = length (take off mem @ src) + j"
        using h assms(1) by (simp add: j_def)
      have "X ! (off' + i) = drop (off + length src) mem ! j"
        unfolding X_def e append_assoc [symmetric] by (rule nth_append_length_plus)
      also have "\<dots> = mem ! (off + length src + j)"
        using assms(1) by simp
      finally show ?thesis using h by (simp add: j_def)
    qed
    then show "take n (drop off' X) ! i = take n (drop off' mem) ! i"
      using i lx by simp
  qed
  then show ?thesis by (simp add: X_def)
qed

lemma setDay_result:
  assumes "programOffsets day + 26 \<le> length mem"
  shows "\<exists>mem'. setDay ops day programs mem = Some mem' \<and> length mem' = length mem
           \<and> take 26 (drop (programOffsets day) mem') =
               (if filter (dayBit day) programs = []
                then take 26 (drop (programOffsets day) mem)
                else encodeProgramDay ops (Endtimes (last (filter (dayBit day) programs))))
           \<and> (\<forall>off'. off' + 26 \<le> programOffsets day \<or> programOffsets day + 26 \<le> off'
                 \<longrightarrow> take 26 (drop off' mem') = take 26 (drop off' mem))"
  using assms
proof (induction programs arbitrary: mem)
  case Nil
  then show ?case by simp
next
  case (Cons pg programs)
  show ?case
  proof (cases "dayBit day pg")
    case False
    then have "setDay ops day (pg # programs) mem = setDay ops day programs mem"
      and "filter (dayBit day) (pg # programs) = filter (dayBit day) programs"
      by simp_all
    then show ?thesis using Cons.IH [OF Cons.prems] by (simp only:)
  next
    case True
    let ?src = "encodeProgramDay ops (Endtimes pg)"
    let ?off = "programOffsets day"
    define m1 where "m1 = take ?off mem @ ?src @ drop (?off + length ?src) mem"
    have fits: "?off + length ?src \<le> length mem"
      using Cons.prems by (simp add: length_encodeProgramDay)
    have c: "copyAt mem ?off ?src = Some m1"
      unfolding m1_def by (rule copyAt_fits [OF fits])
    have l1: "length m1 = length mem"
      unfolding m1_def by (rule put_length [OF fits])
    have w1: "take 26 (drop ?off m1) = ?src"
      unfolding m1_def using put_window [OF fits] by (simp only: length_encodeProgramDay)
    have o1: "take 26 (drop off' m1) = take 26 (drop off' mem)"
      if "off' + 26 \<le> ?off \<or> ?off + 26 \<le> off'" for off'
      unfolding m1_def
      using put_other [OF fits, of off' 26] that by (simp only: length_encodeProgramDay)
    have "?off + 26 \<le> length m1" using Cons.prems l1 by simp
    from Cons.IH [OF this] obtain mem' where
      r: "setDay ops day programs m1 = Some mem'" "length mem' = length m1"
         "take 26 (drop ?off mem') =
            (if filter (dayBit day) programs = [] then take 26 (drop ?off m1)
             else encodeProgramDay ops (Endtimes (last (filter (dayBit day) programs))))"
         "\<forall>off'. off' + 26 \<le> ?off \<or> ?off + 26 \<le> off'
            \<longrightarrow> take 26 (drop off' mem') = take 26 (drop off' m1)"
      by blast
    have "setDay ops day (pg # programs) mem = Some mem'" using True c r(1) by simp
    moreover have "length mem' = length mem" using r(2) l1 by simp
    moreover have "take 26 (drop ?off mem') =
        encodeProgramDay ops (Endtimes (last (filter (dayBit day) (pg # programs))))"
      using True r(3) w1 by simp
    moreover have "\<forall>off'. off' + 26 \<le> ?off \<or> ?off + 26 \<le> off'
            \<longrightarrow> take 26 (drop off' mem') = take 26 (drop off' mem)"
      using r(4) o1 by metis
    ultimately show ?thesis using True by simp
  qed
qed

lemma programOffsets_apart:
  "day \<noteq> day' \<Longrightarrow>
     programOffsets day' + 26 \<le> programOffsets day \<or> programOffsets day + 26 \<le> programOffsets day'"
  by (cases day; cases day') simp_all

lemma programOffsets_bound: "programOffsets day + 26 \<le> 202"
  by (cases day) simp_all

lemma setDays_result:
  assumes "202 \<le> length mem" and "distinct days"
  shows "\<exists>mem'. setDays ops days programs mem = Some mem' \<and> length mem' = length mem
           \<and> (\<forall>day \<in> set days.
                 take 26 (drop (programOffsets day) mem') =
                   (if filter (dayBit day) programs = []
                    then take 26 (drop (programOffsets day) mem)
                    else encodeProgramDay ops (Endtimes (last (filter (dayBit day) programs)))))
           \<and> (\<forall>off'. (\<forall>day \<in> set days.
                          off' + 26 \<le> programOffsets day \<or> programOffsets day + 26 \<le> off')
                 \<longrightarrow> take 26 (drop off' mem') = take 26 (drop off' mem))"
  using assms
proof (induction days arbitrary: mem)
  case Nil
  then show ?case by simp
next
  case (Cons day days)
  have "programOffsets day + 26 \<le> length mem"
    using programOffsets_bound [of day] Cons.prems(1) by simp
  from setDay_result [OF this, of ops programs] obtain m1 where
    d: "setDay ops day programs mem = Some m1" "length m1 = length mem"
       "take 26 (drop (programOffsets day) m1) =
          (if filter (dayBit day) programs = [] then take 26 (drop (programOffsets day) mem)
           else encodeProgramDay ops (Endtimes (last (filter (dayBit day) programs))))"
       "\<forall>off'. off' + 26 \<le> programOffsets day \<or> programOffsets day + 26 \<le> off'
          \<longrightarrow> take 26 (drop off' m1) = take 26 (drop off' mem)"
    by blast
  have "202 \<le> length m1" and "distinct days" using Cons.prems d(2) by simp_all
  from Cons.IH [OF this] obtain mem' where
    r: "setDays ops days programs m1 = Some mem'" "length mem' = length m1"
       "\<forall>day \<in> set days.
           take 26 (drop (programOffsets day) mem') =
             (if filter (dayBit day) programs = []
              then take 26 (drop (programOffsets day) m1)
              else encodeProgramDay ops (Endtimes (last (filter (dayBit day) programs))))"
       "\<forall>off'. (\<forall>day \<in> set days.
                  off' + 26 \<le> programOffsets day \<or> programOffsets day + 26 \<le> off')
          \<longrightarrow> take 26 (drop off' mem') = take 26 (drop off' m1)"
    by blast
  have others: "day' \<noteq> day" if "day' \<in> set days" for day'
    using that Cons.prems(2) by auto
  have "setDays ops (day # days) programs mem = Some mem'" using d(1) r(1) by simp
  moreover have "length mem' = length mem" using d(2) r(2) by simp
  moreover have "take 26 (drop (programOffsets day) mem') =
        (if filter (dayBit day) programs = [] then take 26 (drop (programOffsets day) mem)
         else encodeProgramDay ops (Endtimes (last (filter (dayBit day) programs))))"
  proof -
    have "\<forall>day' \<in> set days. programOffsets day + 26 \<le> programOffsets day'
            \<or> programOffsets day' + 26 \<le> programOffsets day"
      using others programOffsets_apart by blast
    then have "take 26 (drop (programOffsets day) mem') = take 26 (drop (programOffsets day) m1)"
      using r(4) by simp
    then show ?thesis using d(3) by simp
  qed
  moreover have "take 26 (drop (programOffsets day') mem') =
        (if filter (dayBit day') programs = [] then take 26 (drop (programOffsets day') mem)
         else encodeProgramDay ops (Endtimes (last (filter (dayBit day') programs))))"
    if "day' \<in> set days" for day'
  proof -
    have "take 26 (drop (programOffsets day') m1) = take 26 (drop (programOffsets day') mem)"
      using d(4) programOffsets_apart [OF others [OF that]] by blast
    then show ?thesis using r(3) that by simp
  qed
  moreover have "take 26 (drop off' mem') = take 26 (drop off' mem)"
    if "\<forall>d \<in> set (day # days). off' + 26 \<le> programOffsets d \<or> programOffsets d + 26 \<le> off'"
    for off'
  proof -
    from that have a: "off' + 26 \<le> programOffsets day \<or> programOffsets day + 26 \<le> off'"
      and b: "\<forall>d \<in> set days. off' + 26 \<le> programOffsets d \<or> programOffsets d + 26 \<le> off'"
      by simp_all
    have "take 26 (drop off' mem') = take 26 (drop off' m1)" using r(4) b by blast
    also have "\<dots> = take 26 (drop off' mem)" using d(4) a by blast
    finally show ?thesis .
  qed
  ultimately show ?case by auto
qed

text \<open>
  C6, as the code has it. On a memory of at least 202 bytes (the device memory has 256)
  \<open>SetPrograms\<close> does not panic and keeps the length. For each weekday, the 26 bytes at
  that day's offset (Saturday 20, Sunday 46, Monday 72, Tuesday 98, Wednesday 124,
  Thursday 150, Friday 176) are afterwards the encoding of the last program in the list
  whose \<open>DayMask\<close> has the day's bit set: every such program is written in list order, and
  each overwrites the one before. With no such program the 26 bytes are unchanged.
\<close>

theorem SetPrograms_last_program_wins:
  assumes "202 \<le> length mem"
  shows "\<exists>mem'. SetPrograms ops mem programs = Some mem' \<and> length mem' = length mem
           \<and> (\<forall>day. take 26 (drop (programOffsets day) mem') =
                 (if filter (dayBit day) programs = []
                  then take 26 (drop (programOffsets day) mem)
                  else encodeProgramDay ops (Endtimes (last (filter (dayBit day) programs)))))"
proof -
  have dist: "distinct [Saturday, Sunday, Monday, Tuesday, Wednesday, Thursday, Friday]"
    by simp
  have all: "day \<in> set [Saturday, Sunday, Monday, Tuesday, Wednesday, Thursday, Friday]" for day
    by (cases day) simp_all
  from setDays_result [OF assms dist, of ops programs] all show ?thesis
    unfolding SetPrograms_def by blast
qed


lemma upt13: "[0..<13] = [0, 1, 2, 3, 4, 5, 6, 7, 8, 9, 10, 11, 12]"
  by (simp add: upt_rec)

lemma enc_weekend: "encodeProgramDay exactOps (Endtimes weekendProgram) =
   [68, 72, 89, 20, 69, 32, 69, 32, 69, 32, 69, 32, 69, 32, 69, 32, 69, 32, 69, 32, 69, 32, 69, 32, 69, 32]"
  by (simp add: encodeProgramDay_def encodeEntry_def upt13 exactOps_def weekendProgram_def)

lemma enc_saturday: "encodeProgramDay exactOps (Endtimes saturdayProgram) =
   [68, 96, 85, 8, 69, 32, 69, 32, 69, 32, 69, 32, 69, 32, 69, 32, 69, 32, 69, 32, 69, 32, 69, 32, 69, 32]"
  by (simp add: encodeProgramDay_def encodeEntry_def upt13 exactOps_def saturdayProgram_def)

lemma dayBits:
  "dayBit Saturday weekendProgram" "dayBit Saturday saturdayProgram"
  "dayBit Sunday weekendProgram" "\<not> dayBit Sunday saturdayProgram"
  "\<not> dayBit Monday weekendProgram" "\<not> dayBit Monday saturdayProgram"
  by (simp_all add: dayBit_def weekendProgram_def saturdayProgram_def)


theorem SetPrograms_last_program_wins_witness:
  "202 \<le> length (replicate 256 (0 :: byte))
   \<and> (\<exists>mem'. SetPrograms exactOps (replicate 256 0) [weekendProgram, saturdayProgram] = Some mem'
          \<and> take 26 (drop 20 mem') =
              [68, 96, 85, 8, 69, 32, 69, 32, 69, 32, 69, 32, 69, 32, 69, 32, 69, 32, 69, 32,
               69, 32, 69, 32, 69, 32]
          \<and> take 26 (drop 46 mem') =
              [68, 72, 89, 20, 69, 32, 69, 32, 69, 32, 69, 32, 69, 32, 69, 32, 69, 32, 69, 32,
               69, 32, 69, 32, 69, 32]
          \<and> take 26 (drop 72 mem') = replicate 26 0)"
proof -
  have h: "202 \<le> length (replicate 256 (0 :: byte))" by simp
  from SetPrograms_last_program_wins [OF h, of exactOps "[weekendProgram, saturdayProgram]"]
  obtain mem' where
    m: "SetPrograms exactOps (replicate 256 0) [weekendProgram, saturdayProgram] = Some mem'"
    and w: "\<And>day. take 26 (drop (programOffsets day) mem') =
              (if filter (dayBit day) [weekendProgram, saturdayProgram] = []
               then take 26 (drop (programOffsets day) (replicate 256 0))
               else encodeProgramDay exactOps
                      (Endtimes (last (filter (dayBit day) [weekendProgram, saturdayProgram]))))"
    by blast
  have "take 26 (drop 20 mem') = encodeProgramDay exactOps (Endtimes saturdayProgram)"
    using w [of Saturday] dayBits by simp
  moreover have "take 26 (drop 46 mem') = encodeProgramDay exactOps (Endtimes weekendProgram)"
    using w [of Sunday] dayBits by simp
  moreover have "take 26 (drop 72 mem') = replicate 26 0"
    using w [of Monday] dayBits by simp
  ultimately show ?thesis using h m enc_weekend enc_saturday by simp
qed

text \<open>
  C6 as stated fails with two programs for the same day: both programs have Saturday's
  bit, and Saturday's slot ends up with the encoding of the second, which differs from the
  encoding of the first.
\<close>

theorem SetPrograms_first_program_counterexample:
  "dayBit Saturday weekendProgram \<and> dayBit Saturday saturdayProgram
   \<and> SetPrograms exactOps (replicate 256 0) [weekendProgram, saturdayProgram] \<noteq> None
   \<and> take 26 (drop (programOffsets Saturday)
         (the (SetPrograms exactOps (replicate 256 0) [weekendProgram, saturdayProgram])))
       = encodeProgramDay exactOps (Endtimes saturdayProgram)
   \<and> encodeProgramDay exactOps (Endtimes saturdayProgram)
       \<noteq> encodeProgramDay exactOps (Endtimes weekendProgram)"
proof -
  have h: "202 \<le> length (replicate 256 (0 :: byte))" by simp
  have dist: "distinct [Saturday, Sunday, Monday, Tuesday, Wednesday, Thursday, Friday]"
    by simp
  from setDays_result [OF h dist, of exactOps "[weekendProgram, saturdayProgram]"]
  obtain mem' where
    m: "setDays exactOps [Saturday, Sunday, Monday, Tuesday, Wednesday, Thursday, Friday]
          [weekendProgram, saturdayProgram] (replicate 256 0) = Some mem'"
    and a: "\<forall>day \<in> set [Saturday, Sunday, Monday, Tuesday, Wednesday, Thursday, Friday].
              take 26 (drop (programOffsets day) mem') =
              (if filter (dayBit day) [weekendProgram, saturdayProgram] = []
               then take 26 (drop (programOffsets day) (replicate 256 0))
               else encodeProgramDay exactOps
                      (Endtimes (last (filter (dayBit day)
                                         [weekendProgram, saturdayProgram]))))"
    by blast
  have "Saturday \<in> set [Saturday, Sunday, Monday, Tuesday, Wednesday, Thursday, Friday]"
    by simp
  from bspec [OF a this]
  have w: "take 26 (drop (programOffsets Saturday) mem') =
              (if filter (dayBit Saturday) [weekendProgram, saturdayProgram] = []
               then take 26 (drop (programOffsets Saturday) (replicate 256 0))
               else encodeProgramDay exactOps
                      (Endtimes (last (filter (dayBit Saturday)
                                         [weekendProgram, saturdayProgram]))))" .
  have "take 26 (drop (programOffsets Saturday) mem')
          = encodeProgramDay exactOps (Endtimes saturdayProgram)"
    using w dayBits by simp
  then show ?thesis using m dayBits enc_weekend enc_saturday by (simp add: SetPrograms_def)
qed


end
